theory Spec2Isabelle
  imports Complex_Main "HOL-Library.Stream"
begin

section \<open>Python primitives used by the dungeon game\<close>

text \<open>
  Exceptions of the source become values of \<open>error + 'a\<close>; \<open>Inl\<close> is the raised
  exception. Only the exception classes that the modelled code can raise are listed.
\<close>

datatype error = IndexError | ValueError | EOFError

definition ebind :: "error + 'a \<Rightarrow> ('a \<Rightarrow> error + 'b) \<Rightarrow> error + 'b" where
  "ebind m f = (case m of Inl e \<Rightarrow> Inl e | Inr v \<Rightarrow> f v)"

text \<open>
  The module \<open>random\<close> is an unending supply of raw draws. Every call of the source
  consumes the next draw; the value of a draw is arbitrary, so a statement for all
  streams is a statement for all outcomes of the generator.
\<close>

type_synonym rng = "nat stream"

text \<open>\<open>random.randrange(a, b)\<close>: raises \<open>ValueError\<close> on an empty range.\<close>

definition randrange :: "int \<Rightarrow> int \<Rightarrow> rng \<Rightarrow> error + (int \<times> rng)" where
  "randrange a b s =
     (if b \<le> a then Inl ValueError
      else Inr (a + int (shd s) mod (b - a), stl s))"

text \<open>
  \<open>random.random()\<close>: a double that is a multiple of \<open>2 ^ -53\<close> in the half-open
  unit interval, kept as the exact rational it denotes.
\<close>

definition random_unit :: "rng \<Rightarrow> rat \<times> rng" where
  "random_unit s = (of_nat (shd s mod 2 ^ 53) / 2 ^ 53, stl s)"

text \<open>\<open>random.choice(xs)\<close> on a non-empty list.\<close>

definition random_choice :: "'a list \<Rightarrow> rng \<Rightarrow> error + ('a \<times> rng)" where
  "random_choice xs s =
     (if xs = [] then Inl IndexError else Inr (xs ! (shd s mod length xs), stl s))"

text \<open>
  List subscripts: a negative index counts from the end, an index out of range raises
  \<open>IndexError\<close>.
\<close>

definition norm_index :: "nat \<Rightarrow> int \<Rightarrow> error + nat" where
  "norm_index n i =
     (let j = (if i < 0 then int n + i else i)
      in if 0 \<le> j \<and> j < int n then Inr (nat j) else Inl IndexError)"

definition getitem :: "'a list \<Rightarrow> int \<Rightarrow> error + 'a" where
  "getitem xs i = ebind (norm_index (length xs) i) (\<lambda>j. Inr (xs ! j))"

definition setitem :: "'a list \<Rightarrow> int \<Rightarrow> 'a \<Rightarrow> error + 'a list" where
  "setitem xs i v = ebind (norm_index (length xs) i) (\<lambda>j. Inr (xs[j := v]))"

text \<open>\<open>range(n)\<close>: empty for \<open>n \<le> 0\<close>.\<close>

definition py_range :: "int \<Rightarrow> int list" where
  "py_range n = map int [0..<nat n]"

section \<open>The world\<close>

text \<open>
  The cell symbols of the source are the strings \<open>"."\<close> (Floor), \<open>"#"\<close> (Wall),
  \<open>"T"\<close> (Treasure), \<open>"X"\<close> (Trap), the heart glyph (Heal) and \<open>"E"\<close> (Exit).
\<close>

datatype cell = Floor | Wall | Treasure | Trap | Heal | Exit

type_synonym grid = "cell list list"

text \<open>
  The dict built by \<open>build_world\<close>. Coordinates are \<open>(x, y)\<close>; the grid is indexed
  \<open>grid[y][x]\<close>. Message texts are written without the emoji, accents and apostrophes of the source.
\<close>

record world =
  grid :: grid
  player_pos :: "int \<times> int"
  score :: int
  hp :: int
  turn :: int
  message :: string
  exit_spawned :: bool
  won :: bool

definition clamp :: "int \<Rightarrow> int \<Rightarrow> int \<Rightarrow> int" where
  "clamp n lo hi = max lo (min hi n)"

definition count_symbol :: "grid \<Rightarrow> cell \<Rightarrow> nat" where
  "count_symbol g symbol = sum_list (map (\<lambda>row. count_list row symbol) g)"

definition make_grid :: "int \<Rightarrow> int \<Rightarrow> cell \<Rightarrow> grid" where
  "make_grid width height fill = replicate (nat height) (replicate (nat width) fill)"

text \<open>The read \<open>grid[y][x]\<close> and the assignment \<open>grid[y][x] = v\<close>.\<close>

definition grid_get :: "grid \<Rightarrow> int \<Rightarrow> int \<Rightarrow> error + cell" where
  "grid_get g y x = ebind (getitem g y) (\<lambda>row. getitem row x)"

definition grid_set :: "grid \<Rightarrow> int \<Rightarrow> int \<Rightarrow> cell \<Rightarrow> error + grid" where
  "grid_set g y x v =
     ebind (getitem g y) (\<lambda>row.
     ebind (setitem row x v) (\<lambda>row'.
     setitem g y row'))"

subsection \<open>Generation\<close>

function place_loop ::
  "cell \<Rightarrow> int \<Rightarrow> (int \<times> int) set \<Rightarrow> int \<Rightarrow> int \<Rightarrow> grid \<Rightarrow> int \<Rightarrow> nat \<Rightarrow> rng
     \<Rightarrow> error + (grid \<times> rng)" where
  "place_loop symbol count forbidden w h g placed tries s =
     (if placed < count \<and> tries < 10000 then
        ebind (randrange 0 w s) (\<lambda>(x, s1).
        ebind (randrange 0 h s1) (\<lambda>(y, s2).
          if (x, y) \<in> forbidden then
            place_loop symbol count forbidden w h g placed (tries + 1) s2
          else ebind (grid_get g y x) (\<lambda>c.
            if c \<noteq> Floor then
              place_loop symbol count forbidden w h g placed (tries + 1) s2
            else ebind (grid_set g y x symbol) (\<lambda>g'.
              place_loop symbol count forbidden w h g' (placed + 1) (tries + 1) s2))))
      else Inr (g, s))"
  by pat_completeness auto
termination
  by (relation "measure (\<lambda>(symbol, count, forbidden, w, h, g, placed, tries, s). 10000 - tries)")
     auto

declare place_loop.simps [simp del]

definition place_random ::
  "grid \<Rightarrow> cell \<Rightarrow> int \<Rightarrow> (int \<times> int) set \<Rightarrow> rng \<Rightarrow> error + (grid \<times> rng)" where
  "place_random g symbol count forbidden s =
     (let h = int (length g) in
      ebind (getitem g 0) (\<lambda>row0.
        let w = int (length row0) in
        place_loop symbol count forbidden w h g 0 0 s))"

fun wall_rows :: "int list \<Rightarrow> int \<Rightarrow> grid \<Rightarrow> error + grid" where
  "wall_rows [] height g = Inr g"
| "wall_rows (x # xs) height g =
     ebind (grid_set g 0 x Wall) (\<lambda>g1.
     ebind (grid_set g1 (height - 1) x Wall) (\<lambda>g2.
     wall_rows xs height g2))"

fun wall_cols :: "int list \<Rightarrow> int \<Rightarrow> grid \<Rightarrow> error + grid" where
  "wall_cols [] width g = Inr g"
| "wall_cols (y # ys) width g =
     ebind (grid_set g y 0 Wall) (\<lambda>g1.
     ebind (grid_set g1 y (width - 1) Wall) (\<lambda>g2.
     wall_cols ys width g2))"

definition forbid_rows :: "int \<Rightarrow> int \<Rightarrow> (int \<times> int) set \<Rightarrow> (int \<times> int) set" where
  "forbid_rows width height F =
     fold (\<lambda>x F. insert (x, height - 1) (insert (x, 0) F)) (py_range width) F"

definition forbid_cols :: "int \<Rightarrow> int \<Rightarrow> (int \<times> int) set \<Rightarrow> (int \<times> int) set" where
  "forbid_cols width height F =
     fold (\<lambda>y F. insert (width - 1, y) (insert (0, y) F)) (py_range height) F"

definition msg_welcome :: string where
  "msg_welcome = ''Bienvenue ! Deplace-toi avec zqsd (ou wasd).''"

definition build_world :: "int \<Rightarrow> int \<Rightarrow> rng \<Rightarrow> error + (world \<times> rng)" where
  "build_world width height s =
     (let g0 = make_grid width height Floor;
          px = width div 2; py = height div 2;
          forbidden0 = {(px, py)}
      in
      ebind (wall_rows (py_range width) height g0) (\<lambda>g1.
      ebind (wall_cols (py_range height) width g1) (\<lambda>g2.
      let forbidden = forbid_cols width height (forbid_rows width height forbidden0) in
      ebind (place_random g2 Wall (max 6 ((width * height) div 18)) forbidden s) (\<lambda>(g3, s3).
      ebind (place_random g3 Treasure (max 4 ((width * height) div 30)) forbidden s3) (\<lambda>(g4, s4).
      ebind (place_random g4 Trap (max 4 ((width * height) div 35)) forbidden s4) (\<lambda>(g5, s5).
      ebind (place_random g5 Heal 1 forbidden s5) (\<lambda>(g6, s6).
      Inr (\<lparr> grid = g6, player_pos = (px, py), score = 0, hp = 5, turn = 0,
             message = msg_welcome, exit_spawned = False, won = False \<rparr>, s6))))))))"

subsection \<open>Moves\<close>

definition msg_exit_spawned :: string where
  "msg_exit_spawned = ''Tous les tresors sont ramasses ! Une sortie E est apparue !''"

definition msg_exit_failed :: string where
  "msg_exit_failed = ''Sortie impossible a placer (carte trop remplie).''"

definition msg_wall :: string where
  "msg_wall = ''Ouch, un mur !''"

definition msg_treasure :: string where
  "msg_treasure = ''Tresor trouve ! +10 points.''"

definition msg_trap :: string where
  "msg_trap = ''Piege ! -1 PV.''"

definition msg_heal :: string where
  "msg_heal = ''Soin ! +2 PV.''"

definition msg_victory :: string where
  "msg_victory = ''Tu as trouve la sortie ! VICTOIRE !''"

definition flavor_texts :: "string list" where
  "flavor_texts =
     [''Tu avances prudemment...'', ''Rien d interessant ici.'',
      ''Le donjon est silencieux.'', ''Tu entends un bruit au loin'']"

definition msg_new_treasure :: string where
  "msg_new_treasure = '' (Un eclat dore apparait quelque part...)''"

definition msg_new_trap :: string where
  "msg_new_trap = '' (Une sensation de danger plane...)''"

text \<open>
  The \<open>for _ in range(200)\<close> loop of \<open>spawn_exit\<close>; the first argument is the number
  of iterations left. The assignment after the loop is the case of no iteration left.
\<close>

fun spawn_exit_loop :: "nat \<Rightarrow> world \<Rightarrow> int \<Rightarrow> int \<Rightarrow> rng \<Rightarrow> error + (world \<times> rng)" where
  "spawn_exit_loop 0 wd w h s = Inr (wd\<lparr>message := msg_exit_failed\<rparr>, s)"
| "spawn_exit_loop (Suc n) wd w h s =
     ebind (randrange 1 (w - 1) s) (\<lambda>(x, s1).
     ebind (randrange 1 (h - 1) s1) (\<lambda>(y, s2).
       if (x, y) = player_pos wd then spawn_exit_loop n wd w h s2
       else ebind (grid_get (grid wd) y x) (\<lambda>c.
         if c = Floor then
           ebind (grid_set (grid wd) y x Exit) (\<lambda>g'.
             Inr (wd\<lparr>grid := g', exit_spawned := True, message := msg_exit_spawned\<rparr>, s2))
         else spawn_exit_loop n wd w h s2)))"

definition spawn_exit :: "world \<Rightarrow> rng \<Rightarrow> error + (world \<times> rng)" where
  "spawn_exit wd s =
     (let h = int (length (grid wd)) in
      ebind (getitem (grid wd) 0) (\<lambda>row0.
        let w = int (length row0) in
        spawn_exit_loop 200 wd w h s))"

text \<open>
  The literals \<open>0.12\<close> and \<open>0.20\<close> of \<open>maybe_spawn\<close> denote the doubles nearest to
  them; these are their exact values. A comparison of two doubles is the comparison of
  the rationals they denote.
\<close>

definition treasure_threshold :: rat where
  "treasure_threshold = 1080863910568919 / 2 ^ 53"

definition trap_threshold :: rat where
  "trap_threshold = 3602879701896397 / 2 ^ 54"

text \<open>The \<open>for _ in range(60)\<close> loop of \<open>maybe_spawn\<close>; falling out of it changes nothing.\<close>

fun maybe_spawn_loop ::
  "nat \<Rightarrow> world \<Rightarrow> cell \<Rightarrow> int \<Rightarrow> int \<Rightarrow> rng \<Rightarrow> error + (world \<times> rng)" where
  "maybe_spawn_loop 0 wd symbol w h s = Inr (wd, s)"
| "maybe_spawn_loop (Suc n) wd symbol w h s =
     ebind (randrange 1 (w - 1) s) (\<lambda>(x, s1).
     ebind (randrange 1 (h - 1) s1) (\<lambda>(y, s2).
       if (x, y) = player_pos wd then maybe_spawn_loop n wd symbol w h s2
       else ebind (grid_get (grid wd) y x) (\<lambda>c.
         if c = Floor then
           ebind (grid_set (grid wd) y x symbol) (\<lambda>g'.
             Inr (wd\<lparr>grid := g',
                     message := message wd @
                       (if symbol = Treasure then msg_new_treasure else msg_new_trap)\<rparr>, s2))
         else maybe_spawn_loop n wd symbol w h s2)))"

definition maybe_spawn :: "world \<Rightarrow> rng \<Rightarrow> error + (world \<times> rng)" where
  "maybe_spawn wd s =
     (if exit_spawned wd then Inr (wd, s)
      else
        let (roll, s1) = random_unit s in
        if roll < treasure_threshold then
          ebind (getitem (grid wd) 0) (\<lambda>row0.
            maybe_spawn_loop 60 wd Treasure (int (length row0)) (int (length (grid wd))) s1)
        else if roll < trap_threshold then
          ebind (getitem (grid wd) 0) (\<lambda>row0.
            maybe_spawn_loop 60 wd Trap (int (length row0)) (int (length (grid wd))) s1)
        else Inr (wd, s1))"

text \<open>The steps of \<open>try_move\<close> after the interaction with the cell.\<close>

definition post_move :: "world \<Rightarrow> rng \<Rightarrow> error + (world \<times> rng)" where
  "post_move wd s =
     ebind (if \<not> exit_spawned wd \<and> count_symbol (grid wd) Treasure = 0
            then spawn_exit wd s else Inr (wd, s)) (\<lambda>(wd1, s1).
     maybe_spawn wd1 s1)"

definition try_move :: "world \<Rightarrow> int \<Rightarrow> int \<Rightarrow> rng \<Rightarrow> error + (world \<times> rng)" where
  "try_move wd dx dy s =
     (let g = grid wd; (px, py) = player_pos wd;
          ny = clamp (py + dy) 0 (int (length g) - 1)
      in
      ebind (getitem g 0) (\<lambda>row0.
      let nx = clamp (px + dx) 0 (int (length row0) - 1) in
      ebind (grid_get g ny nx) (\<lambda>target.
      if target = Wall then Inr (wd\<lparr>message := msg_wall\<rparr>, s)
      else
        let wd1 = wd\<lparr>player_pos := (nx, ny), turn := turn wd + 1\<rparr> in
        if target = Treasure then
          ebind (grid_set g ny nx Floor) (\<lambda>g'.
            post_move (wd1\<lparr>score := score wd1 + 10, message := msg_treasure, grid := g'\<rparr>) s)
        else if target = Trap then
          ebind (grid_set g ny nx Floor) (\<lambda>g'.
            post_move (wd1\<lparr>hp := hp wd1 - 1, message := msg_trap, grid := g'\<rparr>) s)
        else if target = Heal then
          ebind (grid_set g ny nx Floor) (\<lambda>g'.
            post_move (wd1\<lparr>hp := hp wd1 + 2, message := msg_heal, grid := g'\<rparr>) s)
        else if target = Exit then
          Inr (wd1\<lparr>won := True, message := msg_victory\<rparr>, s)
        else
          ebind (random_choice flavor_texts s) (\<lambda>(m, s1).
            post_move (wd1\<lparr>message := m\<rparr>) s1))))"

text \<open>
  The candidate coordinate of a move, as the first lines of \<open>try_move\<close> compute it,
  the symbol read there, and the two assignments of a move that is not blocked.
\<close>

definition destination :: "world \<Rightarrow> int \<Rightarrow> int \<Rightarrow> error + (int \<times> int)" where
  "destination wd dx dy =
     ebind (getitem (grid wd) 0) (\<lambda>row0.
       Inr (clamp (fst (player_pos wd) + dx) 0 (int (length row0) - 1),
            clamp (snd (player_pos wd) + dy) 0 (int (length (grid wd)) - 1)))"

definition target_cell :: "world \<Rightarrow> int \<Rightarrow> int \<Rightarrow> error + cell" where
  "target_cell wd dx dy = ebind (destination wd dx dy) (\<lambda>(nx, ny). grid_get (grid wd) ny nx)"

definition moved :: "world \<Rightarrow> int \<times> int \<Rightarrow> world" where
  "moved wd p = wd\<lparr>player_pos := p, turn := turn wd + 1\<rparr>"

subsection \<open>The command loop\<close>

text \<open>
  An input line is a \<open>str\<close>, the list of its code points. \<open>ustr\<close> writes a literal of
  the source.
\<close>

type_synonym ustring = "nat list"

definition ustr :: "string \<Rightarrow> ustring" where
  "ustr cs = map of_char cs"

text \<open>
  \<open>str.strip()\<close> removes the leading and the trailing white space: the code points of
  \<open>str.isspace\<close>, which are the ASCII controls U+0009 to U+000D and U+001C to U+001F,
  the space, U+0085, U+00A0, U+1680, U+2000 to U+200A, U+2028, U+2029, U+202F, U+205F
  and U+3000.
\<close>

definition isspace :: "nat \<Rightarrow> bool" where
  "isspace c \<longleftrightarrow>
     (0x09 \<le> c \<and> c \<le> 0x0D) \<or> (0x1C \<le> c \<and> c \<le> 0x20) \<or> c = 0x85 \<or> c = 0xA0 \<or>
     c = 0x1680 \<or> (0x2000 \<le> c \<and> c \<le> 0x200A) \<or> c = 0x2028 \<or> c = 0x2029 \<or>
     c = 0x202F \<or> c = 0x205F \<or> c = 0x3000"

definition str_strip :: "ustring \<Rightarrow> ustring" where
  "str_strip cmd = rev (dropWhile isspace (rev (dropWhile isspace cmd)))"

text \<open>
  \<open>str.lower()\<close> replaces every code point by its lowercase mapping, of one to three
  code points. Below U+0080 the mapping is that of the letters A to Z. Above, it is read
  from the Unicode character database, which is a parameter of the model: the first code
  point of the mapping with the ones that follow it, and the properties \<open>Cased\<close> and
  \<open>Case_Ignorable\<close>. The two properties decide the one mapping that depends on the
  context: capital sigma U+03A3 becomes the final sigma U+03C2 when a cased letter comes
  before it and none after it, case-ignorable code points skipped, and U+03C3 otherwise.
\<close>

record ucd =
  lower_full :: "nat \<Rightarrow> nat \<times> nat list"
  cased :: "nat \<Rightarrow> bool"
  case_ignorable :: "nat \<Rightarrow> bool"

definition to_lower_full :: "ucd \<Rightarrow> nat \<Rightarrow> nat list" where
  "to_lower_full u c =
     (if c < 0x80 then [if 0x41 \<le> c \<and> c \<le> 0x5A then c + 0x20 else c]
      else fst (lower_full u c) # snd (lower_full u c))"

text \<open>\<open>before\<close> holds the code points that precede, the nearest first.\<close>

definition final_sigma :: "ucd \<Rightarrow> ustring \<Rightarrow> ustring \<Rightarrow> bool" where
  "final_sigma u before after =
     (case dropWhile (case_ignorable u) before of
        [] \<Rightarrow> False
      | b # _ \<Rightarrow>
          cased u b \<and>
          (case dropWhile (case_ignorable u) after of [] \<Rightarrow> True | a # _ \<Rightarrow> \<not> cased u a))"

definition lower_ucs4 :: "ucd \<Rightarrow> ustring \<Rightarrow> nat \<Rightarrow> ustring \<Rightarrow> nat list" where
  "lower_ucs4 u before c after =
     (if c = 0x3A3 then [if final_sigma u before after then 0x3C2 else 0x3C3]
      else to_lower_full u c)"

fun do_lower :: "ucd \<Rightarrow> ustring \<Rightarrow> ustring \<Rightarrow> ustring" where
  "do_lower u before [] = []"
| "do_lower u before (c # after) = lower_ucs4 u before c after @ do_lower u (c # before) after"

definition str_lower :: "ucd \<Rightarrow> ustring \<Rightarrow> ustring" where
  "str_lower u cmd = do_lower u [] cmd"

definition parse_command :: "ucd \<Rightarrow> ustring \<Rightarrow> ustring" where
  "parse_command u cmd = (if cmd \<noteq> [] then take 1 (str_lower u (str_strip cmd)) else [])"

definition help_text :: string where
  "help_text = concat (map (\<lambda>l. l @ [CHR 0x0A])
     [''AIDE:'', ''- . = sol'', ''- # = mur (bloque)'', ''- T = tresor (+10 points)'',
      ''- X = piege (-1 PV)'', ''- coeur = soin (+2 PV)'',
      ''- E = sortie (apparait quand tous les tresors sont ramasses)'',
      ''Objectif: Ramasser tous les tresors puis trouver la sortie.''])"

definition msg_unknown :: string where
  "msg_unknown = ''Commande inconnue. Tape h pour l aide.''"

definition moves :: "(ustring \<times> (int \<times> int)) list" where
  "moves = [(ustr ''z'', (0, -1)), (ustr ''w'', (0, -1)), (ustr ''s'', (0, 1)),
            (ustr ''q'', (-1, 0)), (ustr ''a'', (-1, 0)), (ustr ''d'', (1, 0))]"

text \<open>
  One pass through the body of \<open>while True\<close> in \<open>game_loop\<close>, given the line that
  the pass reads with \<open>input\<close>: the loop goes on with a world, or the function returns.
  Rendering prints only and is left out.
\<close>

datatype outcome = Continue world rng | Return

definition game_step :: "ucd \<Rightarrow> int \<Rightarrow> int \<Rightarrow> world \<Rightarrow> ustring \<Rightarrow> rng \<Rightarrow> error + outcome" where
  "game_step u width height wd line s =
     (if won wd then
        (if parse_command u line = ustr ''r''
         then ebind (build_world width height s) (\<lambda>(wd', s'). Inr (Continue wd' s'))
         else Inr Return)
      else if hp wd \<le> 0 then
        (if parse_command u line = ustr ''r''
         then ebind (build_world width height s) (\<lambda>(wd', s'). Inr (Continue wd' s'))
         else Inr Return)
      else
        let cmd = parse_command u line in
        if cmd = ustr ''x'' then Inr Return
        else if cmd = ustr ''h'' then Inr (Continue (wd\<lparr>message := help_text\<rparr>) s)
        else if cmd = ustr ''r''
        then ebind (build_world width height s) (\<lambda>(wd', s'). Inr (Continue wd' s'))
        else (case map_of moves cmd of
                Some (dx, dy) \<Rightarrow>
                  ebind (try_move wd dx dy s) (\<lambda>(wd', s'). Inr (Continue wd' s'))
              | None \<Rightarrow> Inr (Continue (wd\<lparr>message := msg_unknown\<rparr>) s)))"

text \<open>The loop over the lines of the input; \<open>input\<close> raises \<open>EOFError\<close> when they run out.\<close>

fun game_loop_from ::
  "ucd \<Rightarrow> int \<Rightarrow> int \<Rightarrow> world \<Rightarrow> rng \<Rightarrow> ustring list \<Rightarrow> error + unit" where
  "game_loop_from u width height wd s [] = Inl EOFError"
| "game_loop_from u width height wd s (line # rest) =
     ebind (game_step u width height wd line s) (\<lambda>r.
       case r of Return \<Rightarrow> Inr ()
       | Continue wd' s' \<Rightarrow> game_loop_from u width height wd' s' rest)"

definition game_loop :: "ucd \<Rightarrow> int \<Rightarrow> int \<Rightarrow> rng \<Rightarrow> ustring list \<Rightarrow> error + unit" where
  "game_loop u width height s lines =
     ebind (build_world width height s)
       (\<lambda>(wd, s'). game_loop_from u width height wd s' lines)"

section \<open>The quote utility\<close>

text \<open>
  The quote utility of \<open>trump_quote.py\<close>. The network and the JSON decoder are outside
  the model: what they deliver to the one call of \<open>urlopen\<close> is the input. A JSON
  object is the list of the pairs of the decoded dict, one per key.
\<close>

datatype json = JNull | JBool bool | JNumber rat | JString string | JArray "json list"
  | JObject "(string \<times> json) list"

text \<open>
  The body of a response: reading or decoding it raises some exception other than
  \<open>JSONDecodeError\<close> (with its text), \<open>json.loads\<close> raises \<open>JSONDecodeError\<close>, or
  it decodes to a value.
\<close>

datatype payload = Unreadable string | Malformed | Parsed json

text \<open>
  The outcome of \<open>urlopen\<close>: it raises \<open>URLError\<close> (with its text; \<open>HTTPError\<close> is
  one), it raises another exception, or it returns a response with a status and a body.
\<close>

datatype reply = Unreachable string | Crashed string | Reply int payload

text \<open>
  The exceptions that leave \<open>get_random_trump_quote\<close>: the four \<open>RuntimeError\<close>s it
  raises, named by their message, and any other exception, which it lets through
  (among them the \<open>AttributeError\<close> of \<open>data.get\<close> on a value that is not a dict; its
  text is abridged).
\<close>

datatype failure = Contact string | Status int | InvalidJson | Unexpected json | Other string

text \<open>
  The text of a quote is a \<open>string\<close>, whose characters stand for the code points below
  256; \<open>strip\<close> removes the white space of that range at both ends.
\<close>

definition is_space :: "char \<Rightarrow> bool" where
  "is_space c =
     (let n = (of_char c :: nat)
      in (9 \<le> n \<and> n \<le> 13) \<or> (28 \<le> n \<and> n \<le> 32) \<or> n = 133 \<or> n = 160)"

definition strip :: "string \<Rightarrow> string" where
  "strip cmd = rev (dropWhile is_space (rev (dropWhile is_space cmd)))"

definition get_random_trump_quote :: "reply \<Rightarrow> failure + string" where
  "get_random_trump_quote r =
     (case r of
        Unreachable e \<Rightarrow> Inl (Contact e)
      | Crashed e \<Rightarrow> Inl (Other e)
      | Reply status body \<Rightarrow>
          if status \<noteq> 200 then Inl (Status status)
          else (case body of
                  Unreadable e \<Rightarrow> Inl (Other e)
                | Malformed \<Rightarrow> Inl InvalidJson
                | Parsed data \<Rightarrow>
                    (case data of
                       JObject kvs \<Rightarrow>
                         (case map_of kvs ''message'' of
                            Some (JString quote) \<Rightarrow>
                              if quote = [] then Inl (Unexpected data) else Inr (strip quote)
                          | _ \<Rightarrow> Inl (Unexpected data))
                     | _ \<Rightarrow> Inl (Other ''object has no attribute get''))))"

text \<open>The calls of \<open>print\<close> made by \<open>main\<close>, in order.\<close>

datatype printed = Heading | Quoted string | Erreur failure

definition trump_quote_main :: "reply \<Rightarrow> printed list" where
  "trump_quote_main r =
     (case get_random_trump_quote r of
        Inr quote \<Rightarrow> [Heading, Quoted quote]
      | Inl e \<Rightarrow> [Erreur e])"

section \<open>Vocabulary of the properties\<close>

text \<open>
  A cell that the spawn loops can write: inside the border ring, not under the player,
  and holding floor.
\<close>

definition spawn_site :: "world \<Rightarrow> int \<Rightarrow> int \<Rightarrow> bool" where
  "spawn_site wd x y \<longleftrightarrow>
     1 \<le> x \<and> 1 \<le> y \<and> (x, y) \<noteq> player_pos wd \<and> grid_get (grid wd) y x = Inr Floor"

text \<open>The effect of \<open>maybe_spawn\<close> and of a successful \<open>spawn_exit\<close> on a world.\<close>

definition event_spawned :: "world \<Rightarrow> world \<Rightarrow> bool" where
  "event_spawned wd wd' \<longleftrightarrow>
     wd' = wd \<or>
     (\<not> exit_spawned wd \<and>
      (\<exists>x y g' symbol. (symbol = Treasure \<or> symbol = Trap) \<and> spawn_site wd x y \<and>
         grid_set (grid wd) y x symbol = Inr g' \<and>
         wd' = wd\<lparr>grid := g', message := message wd @
                  (if symbol = Treasure then msg_new_treasure else msg_new_trap)\<rparr>))"

definition exit_placed :: "world \<Rightarrow> world \<Rightarrow> bool" where
  "exit_placed wd wd' \<longleftrightarrow>
     (\<exists>x y g'. spawn_site wd x y \<and> grid_set (grid wd) y x Exit = Inr g' \<and>
        wd' = wd\<lparr>grid := g', exit_spawned := True, message := msg_exit_spawned\<rparr>)"

text \<open>
  What the steps after the interaction leave alone: the counters, the position, the
  flag \<open>won\<close> and the cell under the player.
\<close>

definition untouched :: "world \<Rightarrow> world \<Rightarrow> bool" where
  "untouched wd wd' \<longleftrightarrow>
     score wd' = score wd \<and> hp wd' = hp wd \<and> turn wd' = turn wd \<and>
     player_pos wd' = player_pos wd \<and> won wd' = won wd \<and>
     (0 \<le> fst (player_pos wd) \<and> 0 \<le> snd (player_pos wd) \<longrightarrow>
        grid_get (grid wd') (snd (player_pos wd)) (fst (player_pos wd)) =
        grid_get (grid wd) (snd (player_pos wd)) (fst (player_pos wd)))"

text \<open>
  Grids as lists: the write of one cell by position, a grid of given width and height,
  the border ring, two grids with walls in the same places, and a grid obtained from
  another by writing symbols of a set on floor cells outside a forbidden set.
\<close>

definition put :: "grid \<Rightarrow> nat \<Rightarrow> nat \<Rightarrow> cell \<Rightarrow> grid" where
  "put g j i v = g[j := (g ! j)[i := v]]"

definition rect :: "grid \<Rightarrow> nat \<Rightarrow> nat \<Rightarrow> bool" where
  "rect g W H \<longleftrightarrow> length g = H \<and> (\<forall>j<H. length (g ! j) = W)"

definition on_border :: "nat \<Rightarrow> nat \<Rightarrow> nat \<Rightarrow> nat \<Rightarrow> bool" where
  "on_border W H i j \<longleftrightarrow> i = 0 \<or> j = 0 \<or> Suc i = W \<or> Suc j = H"

definition border_walls :: "grid \<Rightarrow> bool" where
  "border_walls g \<longleftrightarrow>
     (\<forall>j<length g. \<forall>i<length (g ! j).
        on_border (length (g ! j)) (length g) i j \<longrightarrow> g ! j ! i = Wall)"

definition same_walls :: "grid \<Rightarrow> grid \<Rightarrow> bool" where
  "same_walls g g' \<longleftrightarrow> map (map (\<lambda>c. c = Wall)) g' = map (map (\<lambda>c. c = Wall)) g"

definition filled :: "cell set \<Rightarrow> (int \<times> int) set \<Rightarrow> grid \<Rightarrow> grid \<Rightarrow> bool" where
  "filled S F g g' \<longleftrightarrow>
     length g' = length g \<and>
     (\<forall>j<length g. length (g' ! j) = length (g ! j) \<and>
        (\<forall>i<length (g ! j).
           g' ! j ! i = g ! j ! i \<or>
           (g ! j ! i = Floor \<and> g' ! j ! i \<in> S \<and> (int i, int j) \<notin> F)))"

text \<open>
  Properties of a world: a rectangular grid with a walled ring and the player within
  it; as many exit cells as the flag \<open>exit_spawned\<close> says; the player on a cell that
  is not a wall; what \<open>build_world\<close> returns.
\<close>

definition sound :: "nat \<Rightarrow> nat \<Rightarrow> world \<Rightarrow> bool" where
  "sound W H wd \<longleftrightarrow>
     0 < W \<and> 0 < H \<and> rect (grid wd) W H \<and> border_walls (grid wd) \<and>
     0 \<le> fst (player_pos wd) \<and> fst (player_pos wd) < int W \<and>
     0 \<le> snd (player_pos wd) \<and> snd (player_pos wd) < int H"

definition exit_consistent :: "world \<Rightarrow> bool" where
  "exit_consistent wd \<longleftrightarrow>
     count_symbol (grid wd) Exit = (if exit_spawned wd then 1 else 0)"

definition standing :: "world \<Rightarrow> bool" where
  "standing wd \<longleftrightarrow>
     (\<exists>c. grid_get (grid wd) (snd (player_pos wd)) (fst (player_pos wd)) = Inr c \<and> c \<noteq> Wall) \<and>
     0 \<le> fst (player_pos wd) \<and> 0 \<le> snd (player_pos wd)"

definition fresh :: "nat \<Rightarrow> nat \<Rightarrow> world \<Rightarrow> bool" where
  "fresh W H wd \<longleftrightarrow>
     rect (grid wd) W H \<and>
     (\<forall>j<H. \<forall>i<W. on_border W H i j \<longrightarrow> grid wd ! j ! i = Wall) \<and>
     (\<forall>j<H. \<forall>i<W. grid wd ! j ! i \<noteq> Exit) \<and>
     (\<not> on_border W H (W div 2) (H div 2) \<longrightarrow> grid wd ! (H div 2) ! (W div 2) = Floor) \<and>
     player_pos wd = (int (W div 2), int (H div 2)) \<and>
     score wd = 0 \<and> hp wd = 5 \<and> turn wd = 0 \<and> \<not> exit_spawned wd \<and> \<not> won wd"

text \<open>
  The worlds of the program: those returned by \<open>build_world\<close> for the given
  dimensions (at the start and at every restart), closed under \<open>try_move\<close> with any
  displacement (the four directions of the command loop among them) and under the
  replacement of the message (help and unknown command).
\<close>

inductive reachable :: "int \<Rightarrow> int \<Rightarrow> world \<Rightarrow> bool" for width height where
  create: "build_world width height s = Inr (wd, s') \<Longrightarrow> reachable width height wd"
| move: "reachable width height wd \<Longrightarrow> try_move wd dx dy s = Inr (wd', s') \<Longrightarrow>
     reachable width height wd'"
| narrate: "reachable width height wd \<Longrightarrow> reachable width height (wd\<lparr>message := m\<rparr>)"

text \<open>
  The cells drawn by a spawn loop from a tape: attempt \<open>k\<close> reads the draws
  \<open>2 k\<close> and \<open>2 k + 1\<close> with \<open>randrange(1, w - 1)\<close> and \<open>randrange(1, h - 1)\<close>;
  for a world, with \<open>w\<close> and \<open>h\<close> the lengths the loops read; and whether attempt
  \<open>k\<close> finds a cell it can write.
\<close>

definition pick :: "int \<Rightarrow> int \<Rightarrow> rng \<Rightarrow> nat \<Rightarrow> int \<times> int" where
  "pick w h t k = (1 + int (t !! (2 * k)) mod (w - 2), 1 + int (t !! (2 * k + 1)) mod (h - 2))"

definition picked :: "world \<Rightarrow> rng \<Rightarrow> nat \<Rightarrow> int \<times> int" where
  "picked wd t k = pick (int (length (grid wd ! 0))) (int (length (grid wd))) t k"

definition picks_site :: "world \<Rightarrow> rng \<Rightarrow> nat \<Rightarrow> bool" where
  "picks_site wd t k \<longleftrightarrow> spawn_site wd (fst (picked wd t k)) (snd (picked wd t k))"

text \<open>
  The world of \<open>try_move\<close> after the interaction with a cell \<open>c\<close> other than wall
  and exit at position \<open>p\<close>, with \<open>g1\<close> the grid after the cell was consumed.
\<close>

definition interacted :: "world \<Rightarrow> int \<times> int \<Rightarrow> cell \<Rightarrow> rng \<Rightarrow> grid \<Rightarrow> world" where
  "interacted wd p c s g1 =
     wd\<lparr>grid := g1, player_pos := p, turn := turn wd + 1,
        score := score wd + (if c = Treasure then 10 else 0),
        hp := hp wd + (if c = Trap then - 1 else if c = Heal then 2 else 0),
        message := (if c = Treasure then msg_treasure else if c = Trap then msg_trap
                    else if c = Heal then msg_heal else flavor_texts ! (shd s mod 4))\<rparr>"

section \<open>Sample worlds\<close>

text \<open>
  An excerpt of the character database: the two code points above U+007F whose
  lowercase mapping starts with an ASCII letter (capital I with dot above U+0130 and
  the Kelvin sign U+212A), the ASCII letters and capital sigma as cased, the apostrophe
  and the combining dot above U+0307 as case-ignorable.
\<close>

definition excerpt :: ucd where
  "excerpt =
     \<lparr>lower_full = (\<lambda>c. if c = 0x130 then (0x69, [0x307])
                          else if c = 0x212A then (0x6B, []) else (c, [])),
      cased = (\<lambda>c. (0x41 \<le> c \<and> c \<le> 0x5A) \<or> (0x61 \<le> c \<and> c \<le> 0x7A) \<or> c = 0x3A3),
      case_ignorable = (\<lambda>c. c = 0x27 \<or> c = 0x307)\<rparr>"

text \<open>
  A corridor of one row inside the border ring: the player, a treasure, a trap and a
  heal. Walking right consumes them in turn; the first step takes the last treasure,
  so the exit appears, on the cell the player has left.
\<close>

definition wall_row :: "cell list" where
  "wall_row = [Wall, Wall, Wall, Wall, Wall, Wall]"

definition corridor0 :: world where
  "corridor0 = \<lparr> grid = [wall_row, [Wall, Floor, Treasure, Trap, Heal, Wall], wall_row],
     player_pos = (1, 1), score = 0, hp = 5, turn = 0, message = msg_welcome,
     exit_spawned = False, won = False \<rparr>"

definition corridor1 :: world where
  "corridor1 = \<lparr> grid = [wall_row, [Wall, Exit, Floor, Trap, Heal, Wall], wall_row],
     player_pos = (2, 1), score = 10, hp = 5, turn = 1, message = msg_exit_spawned,
     exit_spawned = True, won = False \<rparr>"

definition corridor2 :: world where
  "corridor2 = \<lparr> grid = [wall_row, [Wall, Exit, Floor, Floor, Heal, Wall], wall_row],
     player_pos = (3, 1), score = 10, hp = 4, turn = 2, message = msg_trap,
     exit_spawned = True, won = False \<rparr>"

definition corridor3 :: world where
  "corridor3 = \<lparr> grid = [wall_row, [Wall, Exit, Floor, Floor, Floor, Wall], wall_row],
     player_pos = (4, 1), score = 10, hp = 6, turn = 3, message = msg_heal,
     exit_spawned = True, won = False \<rparr>"

definition zeros :: rng where
  "zeros = sconst 0"

definition corridor_won :: world where
  "corridor_won = \<lparr> grid = [wall_row, [Wall, Exit, Floor, Trap, Heal, Wall], wall_row],
     player_pos = (1, 1), score = 10, hp = 5, turn = 2, message = msg_victory,
     exit_spawned = True, won = True \<rparr>"

text \<open>A hall with free floor, and the same hall after a random event.\<close>

definition hall :: world where
  "hall = \<lparr> grid = [wall_row, [Wall, Floor, Floor, Floor, Floor, Wall], wall_row],
     player_pos = (1, 1), score = 0, hp = 5, turn = 1, message = msg_welcome,
     exit_spawned = False, won = False \<rparr>"

definition hall_treasure :: world where
  "hall_treasure = \<lparr> grid = [wall_row, [Wall, Floor, Treasure, Floor, Floor, Wall], wall_row],
     player_pos = (1, 1), score = 0, hp = 5, turn = 1,
     message = msg_welcome @ msg_new_treasure, exit_spawned = False, won = False \<rparr>"

definition hall_trap :: world where
  "hall_trap = \<lparr> grid = [wall_row, [Wall, Floor, Floor, Trap, Floor, Wall], wall_row],
     player_pos = (1, 1), score = 0, hp = 5, turn = 1,
     message = msg_welcome @ msg_new_trap, exit_spawned = False, won = False \<rparr>"

text \<open>
  Tapes of draws: a roll of 0 and the cell (2, 1); a roll equal to the double 0.12, the
  least roll that selects a trap, and the cell (3, 1); a roll of 1/2.
\<close>

definition tape_treasure :: rng where
  "tape_treasure = 0 ## 1 ## 0 ## zeros"

definition tape_trap :: rng where
  "tape_trap = 1080863910568919 ## 2 ## 0 ## zeros"

definition tape_quiet :: rng where
  "tape_quiet = 4503599627370496 ## zeros"

text \<open>
  What \<open>build_world\<close> returns on the tape of zeros for the dimensions 1 by 1, 5 by 3
  and 3 by 3 (nothing is placed: every pick is the forbidden corner), and the second
  of these worlds after a step to the right.
\<close>

definition pit :: world where
  "pit = \<lparr> grid = [[Wall]], player_pos = (0, 0), score = 0, hp = 5, turn = 0,
     message = msg_welcome, exit_spawned = False, won = False \<rparr>"

definition room5 :: world where
  "room5 = \<lparr> grid = [[Wall, Wall, Wall, Wall, Wall], [Wall, Floor, Floor, Floor, Wall],
       [Wall, Wall, Wall, Wall, Wall]],
     player_pos = (2, 1), score = 0, hp = 5, turn = 0,
     message = msg_welcome, exit_spawned = False, won = False \<rparr>"

definition room5_exit :: world where
  "room5_exit = \<lparr> grid = [[Wall, Wall, Wall, Wall, Wall], [Wall, Exit, Floor, Floor, Wall],
       [Wall, Wall, Wall, Wall, Wall]],
     player_pos = (3, 1), score = 0, hp = 5, turn = 1,
     message = msg_exit_spawned, exit_spawned = True, won = False \<rparr>"

definition cell3 :: world where
  "cell3 = \<lparr> grid = [[Wall, Wall, Wall], [Wall, Floor, Wall], [Wall, Wall, Wall]],
     player_pos = (1, 1), score = 0, hp = 5, turn = 0,
     message = msg_welcome, exit_spawned = False, won = False \<rparr>"

section \<open>Subscripts and draws\<close>

lemma ebind_Inl [simp]: "ebind (Inl e) f = Inl e"
  by (simp add: ebind_def)

lemma ebind_Inr [simp]: "ebind (Inr v) f = f v"
  by (simp add: ebind_def)

lemma ebind_eq_Inr: "ebind m f = Inr r \<longleftrightarrow> (\<exists>v. m = Inr v \<and> f v = Inr r)"
  by (cases m) simp_all

lemma norm_index_Inr: "norm_index n i = Inr j \<longleftrightarrow>
   (0 \<le> i \<and> i < int n \<and> j = nat i) \<or> (i < 0 \<and> 0 \<le> int n + i \<and> j = nat (int n + i))"
  by (auto simp: norm_index_def Let_def)

lemma norm_index_nonneg:
  "0 \<le> i \<Longrightarrow> norm_index n i = (if i < int n then Inr (nat i) else Inl IndexError)"
  by (auto simp: norm_index_def Let_def)

lemma getitem_nonneg:
  "0 \<le> i \<Longrightarrow> getitem xs i = (if i < int (length xs) then Inr (xs ! nat i) else Inl IndexError)"
  by (simp add: getitem_def norm_index_nonneg)

lemma setitem_nonneg:
  "0 \<le> i \<Longrightarrow> setitem xs i v = (if i < int (length xs) then Inr (xs[nat i := v]) else Inl IndexError)"
  by (simp add: setitem_def norm_index_nonneg)

lemma grid_get_nonneg:
  "0 \<le> y \<Longrightarrow> 0 \<le> x \<Longrightarrow> grid_get g y x =
     (if y < int (length g) \<and> x < int (length (g ! nat y)) then Inr (g ! nat y ! nat x)
      else Inl IndexError)"
  by (simp add: grid_get_def getitem_nonneg)

lemma grid_set_nonneg:
  "0 \<le> y \<Longrightarrow> 0 \<le> x \<Longrightarrow> grid_set g y x v =
     (if y < int (length g) \<and> x < int (length (g ! nat y))
      then Inr (g[nat y := (g ! nat y)[nat x := v]])
      else Inl IndexError)"
  by (simp add: grid_set_def getitem_nonneg setitem_nonneg)

lemma grid_get_after_set:
  assumes "grid_set g y x v = Inr g'" "0 \<le> y" "0 \<le> x" "0 \<le> y'" "0 \<le> x'"
  shows "grid_get g' y' x' = (if (x', y') = (x, y) then Inr v else grid_get g y' x')"
  using assms
  by (auto simp: grid_get_nonneg grid_set_nonneg nth_list_update split: if_splits)

lemma randrange_Inr:
  "randrange a b s = Inr (x, s1) \<longleftrightarrow> a < b \<and> x = a + int (shd s) mod (b - a) \<and> s1 = stl s"
  by (auto simp: randrange_def)

lemma randrange_bounds:
  "randrange a b s = Inr (x, s1) \<Longrightarrow> a \<le> x \<and> x < b \<and> s1 = stl s"
proof -
  assume r: "randrange a b s = Inr (x, s1)"
  then have ab: "0 < b - a" and x: "x = a + int (shd s) mod (b - a)" and s1: "s1 = stl s"
    by (auto simp: randrange_def split: if_splits)
  have "0 \<le> int (shd s) mod (b - a)" "int (shd s) mod (b - a) < b - a"
    using ab by simp_all
  with x s1 show ?thesis by linarith
qed

lemma try_move_unfold:
  "try_move wd dx dy s =
     ebind (destination wd dx dy) (\<lambda>(nx, ny).
     ebind (grid_get (grid wd) ny nx) (\<lambda>target.
       if target = Wall then Inr (wd\<lparr>message := msg_wall\<rparr>, s)
       else if target = Treasure then
         ebind (grid_set (grid wd) ny nx Floor) (\<lambda>g'.
           post_move ((moved wd (nx, ny))\<lparr>score := score wd + 10, message := msg_treasure, grid := g'\<rparr>) s)
       else if target = Trap then
         ebind (grid_set (grid wd) ny nx Floor) (\<lambda>g'.
           post_move ((moved wd (nx, ny))\<lparr>hp := hp wd - 1, message := msg_trap, grid := g'\<rparr>) s)
       else if target = Heal then
         ebind (grid_set (grid wd) ny nx Floor) (\<lambda>g'.
           post_move ((moved wd (nx, ny))\<lparr>hp := hp wd + 2, message := msg_heal, grid := g'\<rparr>) s)
       else if target = Exit then
         Inr ((moved wd (nx, ny))\<lparr>won := True, message := msg_victory\<rparr>, s)
       else
         ebind (random_choice flavor_texts s) (\<lambda>(m, s1).
           post_move ((moved wd (nx, ny))\<lparr>message := m\<rparr>) s1)))"
  by (cases "getitem (grid wd) 0")
     (simp_all add: try_move_def destination_def moved_def Let_def split_beta cong: if_cong)

lemma destination_nonneg:
  "destination wd dx dy = Inr (nx, ny) \<Longrightarrow> 0 \<le> nx \<and> 0 \<le> ny"
  by (auto simp: destination_def ebind_eq_Inr clamp_def)

text \<open>What the two bounded loops can do to a world.\<close>

lemma maybe_spawn_loop_cases:
  "maybe_spawn_loop n wd symbol w h s = Inr (wd', s') \<Longrightarrow>
     wd' = wd \<or>
     (\<exists>x y g'. spawn_site wd x y \<and> x < w - 1 \<and> y < h - 1 \<and>
        grid_set (grid wd) y x symbol = Inr g' \<and>
        wd' = wd\<lparr>grid := g', message := message wd @
                 (if symbol = Treasure then msg_new_treasure else msg_new_trap)\<rparr>)"
proof (induction n arbitrary: s)
  case 0
  then show ?case by simp
next
  case (Suc n)
  from Suc.prems obtain x s1 y s2 where
    rx: "randrange 1 (w - 1) s = Inr (x, s1)" and ry: "randrange 1 (h - 1) s1 = Inr (y, s2)" and
    rest: "(if (x, y) = player_pos wd then maybe_spawn_loop n wd symbol w h s2
       else ebind (grid_get (grid wd) y x) (\<lambda>c.
         if c = Floor then
           ebind (grid_set (grid wd) y x symbol) (\<lambda>g'.
             Inr (wd\<lparr>grid := g',
                     message := message wd @
                       (if symbol = Treasure then msg_new_treasure else msg_new_trap)\<rparr>, s2))
         else maybe_spawn_loop n wd symbol w h s2)) = Inr (wd', s')"
    by (auto simp: ebind_eq_Inr)
  show ?case
  proof (cases "(x, y) = player_pos wd")
    case True
    with rest Suc.IH show ?thesis by simp
  next
    case False
    with rest obtain c where c: "grid_get (grid wd) y x = Inr c" and
      rest2: "(if c = Floor then
           ebind (grid_set (grid wd) y x symbol) (\<lambda>g'.
             Inr (wd\<lparr>grid := g',
                     message := message wd @
                       (if symbol = Treasure then msg_new_treasure else msg_new_trap)\<rparr>, s2))
         else maybe_spawn_loop n wd symbol w h s2) = Inr (wd', s')"
      by (auto simp: ebind_eq_Inr)
    show ?thesis
    proof (cases "c = Floor")
      case True
      with rest2 obtain g' where "grid_set (grid wd) y x symbol = Inr g'"
        "wd' = wd\<lparr>grid := g', message := message wd @
                 (if symbol = Treasure then msg_new_treasure else msg_new_trap)\<rparr>"
        by (auto simp: ebind_eq_Inr)
      moreover have "spawn_site wd x y \<and> x < w - 1 \<and> y < h - 1"
        using randrange_bounds[OF rx] randrange_bounds[OF ry] False c True
        by (simp add: spawn_site_def)
      ultimately show ?thesis by blast
    next
      case False
      with rest2 Suc.IH show ?thesis by simp
    qed
  qed
qed

lemma spawn_exit_loop_cases:
  "spawn_exit_loop n wd w h s = Inr (wd', s') \<Longrightarrow>
     wd' = wd\<lparr>message := msg_exit_failed\<rparr> \<or>
     (\<exists>x y g'. spawn_site wd x y \<and> x < w - 1 \<and> y < h - 1 \<and>
        grid_set (grid wd) y x Exit = Inr g' \<and>
        wd' = wd\<lparr>grid := g', exit_spawned := True, message := msg_exit_spawned\<rparr>)"
proof (induction n arbitrary: s)
  case 0
  then show ?case by simp
next
  case (Suc n)
  from Suc.prems obtain x s1 y s2 where
    rx: "randrange 1 (w - 1) s = Inr (x, s1)" and ry: "randrange 1 (h - 1) s1 = Inr (y, s2)" and
    rest: "(if (x, y) = player_pos wd then spawn_exit_loop n wd w h s2
       else ebind (grid_get (grid wd) y x) (\<lambda>c.
         if c = Floor then
           ebind (grid_set (grid wd) y x Exit) (\<lambda>g'.
             Inr (wd\<lparr>grid := g', exit_spawned := True, message := msg_exit_spawned\<rparr>, s2))
         else spawn_exit_loop n wd w h s2)) = Inr (wd', s')"
    by (auto simp: ebind_eq_Inr)
  show ?case
  proof (cases "(x, y) = player_pos wd")
    case True
    with rest Suc.IH show ?thesis by simp
  next
    case False
    with rest obtain c where c: "grid_get (grid wd) y x = Inr c" and
      rest2: "(if c = Floor then
           ebind (grid_set (grid wd) y x Exit) (\<lambda>g'.
             Inr (wd\<lparr>grid := g', exit_spawned := True, message := msg_exit_spawned\<rparr>, s2))
         else spawn_exit_loop n wd w h s2) = Inr (wd', s')"
      by (auto simp: ebind_eq_Inr)
    show ?thesis
    proof (cases "c = Floor")
      case True
      with rest2 obtain g' where "grid_set (grid wd) y x Exit = Inr g'"
        "wd' = wd\<lparr>grid := g', exit_spawned := True, message := msg_exit_spawned\<rparr>"
        by (auto simp: ebind_eq_Inr)
      moreover have "spawn_site wd x y \<and> x < w - 1 \<and> y < h - 1"
        using randrange_bounds[OF rx] randrange_bounds[OF ry] False c True
        by (simp add: spawn_site_def)
      ultimately show ?thesis by blast
    next
      case False
      with rest2 Suc.IH show ?thesis by simp
    qed
  qed
qed


section \<open>The steps after the interaction\<close>

lemma maybe_spawn_idle:
  "exit_spawned wd \<Longrightarrow> maybe_spawn wd s = Inr (wd, s)"
  by (simp add: maybe_spawn_def)

lemma thresholds_ordered: "0 < treasure_threshold" "treasure_threshold < trap_threshold"
  by (simp_all add: treasure_threshold_def trap_threshold_def)

lemma snd_random_unit: "snd (random_unit s) = stl s"
  by (simp add: random_unit_def)

lemma maybe_spawn_active:
  assumes "\<not> exit_spawned wd"
  shows "maybe_spawn wd s =
     (if fst (random_unit s) < trap_threshold then
        ebind (getitem (grid wd) 0) (\<lambda>row0.
          maybe_spawn_loop 60 wd (if fst (random_unit s) < treasure_threshold then Treasure else Trap)
            (int (length row0)) (int (length (grid wd))) (stl s))
      else Inr (wd, stl s))"
proof (cases "fst (random_unit s) < treasure_threshold")
  case True
  with thresholds_ordered(2) have "fst (random_unit s) < trap_threshold" by simp
  with True assms show ?thesis
    by (simp add: maybe_spawn_def Let_def split_beta snd_random_unit
          del: maybe_spawn_loop.simps)
next
  case False
  with assms show ?thesis
    by (simp add: maybe_spawn_def Let_def split_beta snd_random_unit
          del: maybe_spawn_loop.simps)
qed

lemma maybe_spawn_event:
  assumes "maybe_spawn wd s = Inr (wd', s')"
  shows "event_spawned wd wd'"
proof (cases "exit_spawned wd")
  case True
  with assms show ?thesis by (simp add: maybe_spawn_idle event_spawned_def)
next
  case False
  show ?thesis
  proof (cases "fst (random_unit s) < trap_threshold")
    case True
    define symbol where "symbol = (if fst (random_unit s) < treasure_threshold then Treasure else Trap)"
    have "maybe_spawn wd s = ebind (getitem (grid wd) 0) (\<lambda>row0.
          maybe_spawn_loop 60 wd symbol (int (length row0)) (int (length (grid wd))) (stl s))"
      unfolding symbol_def maybe_spawn_active[OF False] using True by (simp only: if_True)
    with assms obtain row0 :: "cell list" where
      "maybe_spawn_loop 60 wd symbol (int (length row0)) (int (length (grid wd))) (stl s)
         = Inr (wd', s')"
      by (auto simp: ebind_eq_Inr simp del: maybe_spawn_loop.simps)
    from maybe_spawn_loop_cases[OF this] have "wd' = wd \<or>
       (\<exists>x y g'. spawn_site wd x y \<and> grid_set (grid wd) y x symbol = Inr g' \<and>
          wd' = wd\<lparr>grid := g', message := message wd @
                   (if symbol = Treasure then msg_new_treasure else msg_new_trap)\<rparr>)"
      by blast
    moreover have "symbol = Treasure \<or> symbol = Trap"
      by (simp add: symbol_def)
    ultimately show ?thesis
      unfolding event_spawned_def using False by blast
  next
    case nr: False
    with assms False show ?thesis by (simp add: maybe_spawn_active event_spawned_def)
  qed
qed

lemma spawn_exit_cases:
  assumes "spawn_exit wd s = Inr (wd', s')"
  shows "wd' = wd\<lparr>message := msg_exit_failed\<rparr> \<or> exit_placed wd wd'"
proof -
  from assms obtain row0 :: "cell list" where
    "spawn_exit_loop 200 wd (int (length row0)) (int (length (grid wd))) s = Inr (wd', s')"
    by (auto simp: spawn_exit_def Let_def ebind_eq_Inr simp del: spawn_exit_loop.simps)
  from spawn_exit_loop_cases[OF this] show ?thesis
    unfolding exit_placed_def by blast
qed

lemma exit_placed_flag: "exit_placed wd wd1 \<Longrightarrow> exit_spawned wd1"
  unfolding exit_placed_def by (elim exE conjE) simp

lemma event_spawned_after_exit: "exit_placed wd wd1 \<Longrightarrow> event_spawned wd1 wd' \<Longrightarrow> wd' = wd1"
  using exit_placed_flag[of wd wd1] unfolding event_spawned_def by blast

lemma post_move_exit_due:
  assumes "post_move wd s = Inr (wd', s')"
    and due: "\<not> exit_spawned wd" "count_symbol (grid wd) Treasure = 0"
  shows "exit_placed wd wd' \<or> event_spawned (wd\<lparr>message := msg_exit_failed\<rparr>) wd'"
proof -
  from assms obtain wd1 s1 where 1: "spawn_exit wd s = Inr (wd1, s1)"
    and 2: "maybe_spawn wd1 s1 = Inr (wd', s')"
    by (auto simp: post_move_def ebind_eq_Inr)
  from spawn_exit_cases[OF 1] show ?thesis
  proof
    assume "wd1 = wd\<lparr>message := msg_exit_failed\<rparr>"
    with maybe_spawn_event[OF 2] show ?thesis by simp
  next
    assume p: "exit_placed wd wd1"
    with maybe_spawn_event[OF 2] have "wd' = wd1" by (rule event_spawned_after_exit[rotated])
    with p show ?thesis by simp
  qed
qed

lemma post_move_exit_not_due:
  assumes "post_move wd s = Inr (wd', s')"
    and "exit_spawned wd \<or> count_symbol (grid wd) Treasure \<noteq> 0"
  shows "event_spawned wd wd'"
proof -
  from assms have "maybe_spawn wd s = Inr (wd', s')"
    by (auto simp: post_move_def split: if_splits)
  then show ?thesis by (rule maybe_spawn_event)
qed


lemma spawn_site_untouched:
  assumes "spawn_site wd x y" "grid_set (grid wd) y x v = Inr g'"
  shows "untouched wd (wd\<lparr>grid := g', message := m\<rparr>)"
    and "untouched wd (wd\<lparr>grid := g', exit_spawned := b, message := m\<rparr>)"
proof -
  obtain px py where p: "player_pos wd = (px, py)" by (cases "player_pos wd")
  from assms(1) have xy: "0 \<le> x" "0 \<le> y" "(px, py) \<noteq> (x, y)"
    using p by (auto simp: spawn_site_def)
  have "0 \<le> px \<Longrightarrow> 0 \<le> py \<Longrightarrow> grid_get g' py px = grid_get (grid wd) py px"
    using grid_get_after_set[OF assms(2) xy(2) xy(1), of py px] xy(3) by auto
  then show "untouched wd (wd\<lparr>grid := g', message := m\<rparr>)"
    and "untouched wd (wd\<lparr>grid := g', exit_spawned := b, message := m\<rparr>)"
    by (simp_all add: untouched_def p)
qed

lemma event_spawned_untouched:
  assumes "event_spawned wd wd'"
  shows "untouched wd wd'"
proof (cases "wd' = wd")
  case True
  then show ?thesis by (simp add: untouched_def)
next
  case False
  with assms obtain x y g' m where a: "spawn_site wd x y" "grid_set (grid wd) y x m = Inr g'"
    and w: "wd' = wd\<lparr>grid := g', message := message wd @
                  (if m = Treasure then msg_new_treasure else msg_new_trap)\<rparr>"
    unfolding event_spawned_def by blast
  show ?thesis unfolding w by (rule spawn_site_untouched(1)[OF a])
qed

lemma exit_placed_untouched: "exit_placed wd wd' \<Longrightarrow> untouched wd wd'"
  unfolding exit_placed_def using spawn_site_untouched(2) by blast

lemma untouched_message: "untouched (wd\<lparr>message := m\<rparr>) wd' \<Longrightarrow> untouched wd wd'"
  by (simp add: untouched_def)

lemma post_move_untouched:
  assumes "post_move wd s = Inr (wd', s')"
  shows "untouched wd wd'"
proof (cases "\<not> exit_spawned wd \<and> count_symbol (grid wd) Treasure = 0")
  case True
  then have "exit_placed wd wd' \<or> event_spawned (wd\<lparr>message := msg_exit_failed\<rparr>) wd'"
    using post_move_exit_due[OF assms] by simp
  then show ?thesis
    using exit_placed_untouched event_spawned_untouched untouched_message by blast
next
  case False
  then have "event_spawned wd wd'" using post_move_exit_not_due[OF assms] by simp
  then show ?thesis by (rule event_spawned_untouched)
qed

text \<open>The three consuming branches of a move share one shape.\<close>

lemma consume_untouched:
  assumes d: "destination wd dx dy = Inr (nx, ny)"
    and s: "grid_set (grid wd) ny nx Floor = Inr g'"
    and p: "post_move (wd0\<lparr>grid := g'\<rparr>) s = Inr (wd', s')"
    and pos: "player_pos wd0 = (nx, ny)"
  shows "score wd' = score wd0 \<and> hp wd' = hp wd0 \<and> turn wd' = turn wd0 \<and>
         player_pos wd' = (nx, ny) \<and> grid_get (grid wd') ny nx = Inr Floor"
proof -
  from destination_nonneg[OF d] have nn: "0 \<le> nx" "0 \<le> ny" by simp_all
  have "grid_get g' ny nx = Inr Floor"
    using grid_get_after_set[OF s nn(2) nn(1) nn(2) nn(1)] by simp
  with post_move_untouched[OF p] nn pos show ?thesis
    by (simp add: untouched_def)
qed

section \<open>Running the model on the sample worlds\<close>

text \<open>Unfolding a bounded loop whose count is a numeral, one iteration at a time.\<close>

lemma spawn_exit_loop_numeral:
  "spawn_exit_loop (numeral k) wd w h s =
     ebind (randrange 1 (w - 1) s) (\<lambda>(x, s1).
     ebind (randrange 1 (h - 1) s1) (\<lambda>(y, s2).
       if (x, y) = player_pos wd then spawn_exit_loop (pred_numeral k) wd w h s2
       else ebind (grid_get (grid wd) y x) (\<lambda>c.
         if c = Floor then
           ebind (grid_set (grid wd) y x Exit) (\<lambda>g'.
             Inr (wd\<lparr>grid := g', exit_spawned := True, message := msg_exit_spawned\<rparr>, s2))
         else spawn_exit_loop (pred_numeral k) wd w h s2)))"
  using spawn_exit_loop.simps(2)[of "pred_numeral k" wd w h s] by (simp only: numeral_eq_Suc)

lemma maybe_spawn_loop_numeral:
  "maybe_spawn_loop (numeral k) wd symbol w h s =
     ebind (randrange 1 (w - 1) s) (\<lambda>(x, s1).
     ebind (randrange 1 (h - 1) s1) (\<lambda>(y, s2).
       if (x, y) = player_pos wd then maybe_spawn_loop (pred_numeral k) wd symbol w h s2
       else ebind (grid_get (grid wd) y x) (\<lambda>c.
         if c = Floor then
           ebind (grid_set (grid wd) y x symbol) (\<lambda>g'.
             Inr (wd\<lparr>grid := g',
                     message := message wd @
                       (if symbol = Treasure then msg_new_treasure else msg_new_trap)\<rparr>, s2))
         else maybe_spawn_loop (pred_numeral k) wd symbol w h s2)))"
  using maybe_spawn_loop.simps(2)[of "pred_numeral k" wd symbol w h s] by (simp only: numeral_eq_Suc)

lemmas run_defs = try_move_def post_move_def spawn_exit_def maybe_spawn_def
  grid_get_def grid_set_def getitem_def setitem_def norm_index_def clamp_def
  randrange_def random_unit_def random_choice_def count_symbol_def Let_def
  spawn_exit_loop_numeral maybe_spawn_loop_numeral destination_def target_cell_def
  wall_row_def zeros_def

lemma corridor_step01: "try_move corridor0 1 0 zeros = Inr (corridor1, zeros)"
  by (simp add: corridor0_def corridor1_def run_defs)

lemma corridor_step12: "try_move corridor1 1 0 zeros = Inr (corridor2, zeros)"
  by (simp add: corridor1_def corridor2_def run_defs)

lemma corridor_step23: "try_move corridor2 1 0 zeros = Inr (corridor3, zeros)"
  by (simp add: corridor2_def corridor3_def run_defs)

lemma corridor_destinations:
  "destination corridor0 1 0 = Inr (2, 1)"
  "destination corridor1 1 0 = Inr (3, 1)"
  "destination corridor2 1 0 = Inr (4, 1)"
  "destination corridor1 (-1) 0 = Inr (1, 1)"
  by (simp_all add: corridor0_def corridor1_def corridor2_def run_defs)

section \<open>Moves\<close>

text \<open>
  Claim C3. If the candidate cell of a move is a wall, \<open>try_move\<close> returns the world
  it was given with only the message replaced by the wall message: position, turn
  counter, score, health and grid are unchanged, and no random draw is consumed. This
  holds for every displacement, so for each of the four directions.
\<close>

theorem blocked_move_frame:
  "target_cell wd dx dy = Inr Wall \<Longrightarrow> try_move wd dx dy s = Inr (wd\<lparr>message := msg_wall\<rparr>, s)"
  by (auto simp: try_move_unfold target_cell_def ebind_eq_Inr)

theorem blocked_move_frame_witness:
  "target_cell corridor0 0 (- 1) = Inr Wall \<and>
   try_move corridor0 0 (- 1) zeros = Inr (corridor0\<lparr>message := msg_wall\<rparr>, zeros)"
proof -
  have h: "target_cell corridor0 0 (- 1) = Inr Wall"
    by (simp add: corridor0_def run_defs)
  from h blocked_move_frame[OF h] show ?thesis by simp
qed

text \<open>
  Claim C2. For a move that is not blocked, with \<open>(nx, ny)\<close> the destination: if the
  destination held a treasure, the score grows by exactly 10, health is unchanged and
  the cell is floor when the move returns; if it held a trap, health drops by exactly 1,
  the score is unchanged and the cell is floor; if it held a heal, health grows by
  exactly 2, the score is unchanged and the cell is floor.
\<close>

theorem cell_effects:
  assumes d: "destination wd dx dy = Inr (nx, ny)"
    and m: "try_move wd dx dy s = Inr (wd', s')"
  shows "(grid_get (grid wd) ny nx = Inr Treasure \<longrightarrow>
            score wd' = score wd + 10 \<and> hp wd' = hp wd \<and>
            grid_get (grid wd') ny nx = Inr Floor) \<and>
         (grid_get (grid wd) ny nx = Inr Trap \<longrightarrow>
            hp wd' = hp wd - 1 \<and> score wd' = score wd \<and>
            grid_get (grid wd') ny nx = Inr Floor) \<and>
         (grid_get (grid wd) ny nx = Inr Heal \<longrightarrow>
            hp wd' = hp wd + 2 \<and> score wd' = score wd \<and>
            grid_get (grid wd') ny nx = Inr Floor)"
proof (intro conjI impI)
  assume t: "grid_get (grid wd) ny nx = Inr Treasure"
  from m d t obtain g' where s: "grid_set (grid wd) ny nx Floor = Inr g'" and
    p: "post_move ((moved wd (nx, ny))\<lparr>score := score wd + 10, message := msg_treasure\<rparr>\<lparr>grid := g'\<rparr>) s
          = Inr (wd', s')"
    by (auto simp: try_move_unfold ebind_eq_Inr)
  from consume_untouched[OF d s p]
  show "score wd' = score wd + 10" "hp wd' = hp wd" "grid_get (grid wd') ny nx = Inr Floor"
    by (simp_all add: moved_def)
next
  assume t: "grid_get (grid wd) ny nx = Inr Trap"
  from m d t obtain g' where s: "grid_set (grid wd) ny nx Floor = Inr g'" and
    p: "post_move ((moved wd (nx, ny))\<lparr>hp := hp wd - 1, message := msg_trap\<rparr>\<lparr>grid := g'\<rparr>) s
          = Inr (wd', s')"
    by (auto simp: try_move_unfold ebind_eq_Inr)
  from consume_untouched[OF d s p]
  show "hp wd' = hp wd - 1" "score wd' = score wd" "grid_get (grid wd') ny nx = Inr Floor"
    by (simp_all add: moved_def)
next
  assume t: "grid_get (grid wd) ny nx = Inr Heal"
  from m d t obtain g' where s: "grid_set (grid wd) ny nx Floor = Inr g'" and
    p: "post_move ((moved wd (nx, ny))\<lparr>hp := hp wd + 2, message := msg_heal\<rparr>\<lparr>grid := g'\<rparr>) s
          = Inr (wd', s')"
    by (auto simp: try_move_unfold ebind_eq_Inr)
  from consume_untouched[OF d s p]
  show "hp wd' = hp wd + 2" "score wd' = score wd" "grid_get (grid wd') ny nx = Inr Floor"
    by (simp_all add: moved_def)
qed

theorem cell_effects_witness:
  "(destination corridor0 1 0 = Inr (2, 1) \<and>
    try_move corridor0 1 0 zeros = Inr (corridor1, zeros) \<and>
    grid_get (grid corridor0) 1 2 = Inr Treasure \<and>
    score corridor1 = score corridor0 + 10 \<and> hp corridor1 = hp corridor0 \<and>
    grid_get (grid corridor1) 1 2 = Inr Floor) \<and>
   (destination corridor1 1 0 = Inr (3, 1) \<and>
    try_move corridor1 1 0 zeros = Inr (corridor2, zeros) \<and>
    grid_get (grid corridor1) 1 3 = Inr Trap \<and>
    hp corridor2 = hp corridor1 - 1 \<and> score corridor2 = score corridor1 \<and>
    grid_get (grid corridor2) 1 3 = Inr Floor) \<and>
   (destination corridor2 1 0 = Inr (4, 1) \<and>
    try_move corridor2 1 0 zeros = Inr (corridor3, zeros) \<and>
    grid_get (grid corridor2) 1 4 = Inr Heal \<and>
    hp corridor3 = hp corridor2 + 2 \<and> score corridor3 = score corridor2 \<and>
    grid_get (grid corridor3) 1 4 = Inr Floor)"
proof -
  have t: "grid_get (grid corridor0) 1 2 = Inr Treasure"
    "grid_get (grid corridor1) 1 3 = Inr Trap"
    "grid_get (grid corridor2) 1 4 = Inr Heal"
    by (simp_all add: corridor0_def corridor1_def corridor2_def run_defs)
  from cell_effects[OF corridor_destinations(1) corridor_step01]
       cell_effects[OF corridor_destinations(2) corridor_step12]
       cell_effects[OF corridor_destinations(3) corridor_step23]
       t corridor_destinations corridor_step01 corridor_step12 corridor_step23
  show ?thesis by simp
qed

text \<open>
  Claim C6. Stepping onto an exit cell moves the player, counts the turn, sets \<open>won\<close>
  and the victory message, and nothing else: the grid and the flag \<open>exit_spawned\<close> are
  as before and no random draw is consumed, so neither the exit check nor the random
  event runs. Once \<open>won\<close> holds, a pass of the command loop never calls
  \<open>try_move\<close> on that world: it returns, or goes on with a world built afresh.
\<close>

theorem exit_wins:
  "(target_cell wd dx dy = Inr Exit \<longrightarrow> destination wd dx dy = Inr p \<longrightarrow>
      try_move wd dx dy s = Inr ((moved wd p)\<lparr>won := True, message := msg_victory\<rparr>, s)) \<and>
   (won wd \<longrightarrow>
      game_step u width height wd line s =
        (if parse_command u line = ustr ''r''
         then (case build_world width height s of
                 Inl e \<Rightarrow> Inl e | Inr (wd', s') \<Rightarrow> Inr (Continue wd' s'))
         else Inr Return))"
proof (intro conjI impI)
  assume "target_cell wd dx dy = Inr Exit" "destination wd dx dy = Inr p"
  then show "try_move wd dx dy s = Inr ((moved wd p)\<lparr>won := True, message := msg_victory\<rparr>, s)"
    by (cases p) (simp add: try_move_unfold target_cell_def)
next
  assume "won wd"
  then show "game_step u width height wd line s =
        (if parse_command u line = ustr ''r''
         then (case build_world width height s of
                 Inl e \<Rightarrow> Inl e | Inr (wd', s') \<Rightarrow> Inr (Continue wd' s'))
         else Inr Return)"
    by (simp add: game_step_def ebind_def)
qed

theorem exit_wins_witness:
  "target_cell corridor1 (- 1) 0 = Inr Exit \<and> destination corridor1 (- 1) 0 = Inr (1, 1) \<and>
   try_move corridor1 (- 1) 0 zeros = Inr (corridor_won, zeros) \<and>
   won corridor_won \<and> game_step excerpt 15 11 corridor_won (ustr ''d'') zeros = Inr Return"
proof -
  have t: "target_cell corridor1 (- 1) 0 = Inr Exit"
    by (simp add: corridor1_def run_defs)
  have w: "won corridor_won"
    by (simp add: corridor_won_def)
  have c: "(moved corridor1 (1, 1))\<lparr>won := True, message := msg_victory\<rparr> = corridor_won"
    by (simp add: moved_def corridor1_def corridor_won_def)
  have p: "parse_command excerpt (ustr ''d'') \<noteq> ustr ''r''"
    by (simp add: parse_command_def str_strip_def str_lower_def isspace_def lower_ucs4_def
          to_lower_full_def ustr_def)
  from exit_wins[where wd = corridor1 and dx = "- 1" and dy = 0 and p = "(1, 1)" and s = zeros]
       exit_wins[where wd = corridor_won and u = excerpt and width = 15 and height = 11
         and line = "ustr ''d''" and s = zeros]
    t w c p corridor_destinations(4)
  show ?thesis by simp
qed

section \<open>Random events\<close>

lemma maybe_spawn_loop_draws:
  "maybe_spawn_loop n wd symbol w h s = Inr (wd', s') \<Longrightarrow> \<exists>k\<le>2 * n. s' = sdrop k s"
proof (induction n arbitrary: s)
  case 0
  then show ?case by simp
next
  case (Suc n)
  from Suc.prems obtain x y c where
    rest: "(if (x, y) = player_pos wd then maybe_spawn_loop n wd symbol w h (stl (stl s))
       else ebind (grid_get (grid wd) y x) (\<lambda>c.
         if c = Floor then
           ebind (grid_set (grid wd) y x symbol) (\<lambda>g'.
             Inr (wd\<lparr>grid := g',
                     message := message wd @
                       (if symbol = Treasure then msg_new_treasure else msg_new_trap)\<rparr>,
                  stl (stl s)))
         else maybe_spawn_loop n wd symbol w h (stl (stl s)))) = Inr (wd', s')"
    by (auto simp: ebind_eq_Inr randrange_Inr)
  then have "s' = stl (stl s) \<or> maybe_spawn_loop n wd symbol w h (stl (stl s)) = Inr (wd', s')"
    by (auto simp: ebind_eq_Inr split: if_splits)
  then show ?case
  proof
    assume "s' = stl (stl s)"
    then have "s' = sdrop 2 s" by (simp add: numeral_2_eq_2)
    then show ?thesis by (intro exI[of _ 2]) simp
  next
    assume "maybe_spawn_loop n wd symbol w h (stl (stl s)) = Inr (wd', s')"
    from Suc.IH[OF this] obtain k where k: "k \<le> 2 * n" "s' = sdrop k (stl (stl s))" by blast
    then have "s' = sdrop (Suc (Suc k)) s" by simp
    with k(1) show ?thesis by (intro exI[of _ "Suc (Suc k)"]) simp
  qed
qed

lemma hall_runs:
  "maybe_spawn hall tape_treasure = Inr (hall_treasure, zeros)"
  "maybe_spawn hall tape_trap = Inr (hall_trap, zeros)"
  "maybe_spawn hall tape_quiet = Inr (hall, zeros)"
  "maybe_spawn corridor1 zeros = Inr (corridor1, zeros)"
  by (simp_all add: hall_def hall_treasure_def hall_trap_def corridor1_def run_defs
        tape_treasure_def tape_trap_def tape_quiet_def treasure_threshold_def
        trap_threshold_def)

lemma hall_rolls:
  "fst (random_unit tape_treasure) = 0"
  "fst (random_unit tape_trap) = treasure_threshold"
  "fst (random_unit tape_quiet) = 1 / 2"
  by (simp_all add: random_unit_def tape_treasure_def tape_trap_def tape_quiet_def
        treasure_threshold_def)

section \<open>Grids\<close>

lemma norm_index_less: "norm_index n i = Inr j \<Longrightarrow> j < n"
  by (auto simp: norm_index_Inr)

lemma getitem_Inr: "getitem xs i = Inr v \<longleftrightarrow> (\<exists>j. norm_index (length xs) i = Inr j \<and> v = xs ! j)"
  by (auto simp: getitem_def ebind_eq_Inr)

lemma setitem_Inr:
  "setitem xs i v = Inr ys \<longleftrightarrow> (\<exists>j. norm_index (length xs) i = Inr j \<and> ys = xs[j := v])"
  by (auto simp: setitem_def ebind_eq_Inr)

lemma grid_get_Inr:
  "grid_get g y x = Inr c \<longleftrightarrow>
     (\<exists>j i. norm_index (length g) y = Inr j \<and> norm_index (length (g ! j)) x = Inr i \<and>
        c = g ! j ! i)"
  by (auto simp: grid_get_def ebind_eq_Inr getitem_Inr)

lemma grid_set_Inr:
  "grid_set g y x v = Inr g' \<longleftrightarrow>
     (\<exists>j i. norm_index (length g) y = Inr j \<and> norm_index (length (g ! j)) x = Inr i \<and>
        g' = put g j i v)"
  by (auto simp: grid_set_def ebind_eq_Inr getitem_Inr setitem_Inr put_def)

lemma grid_set_put:
  assumes "grid_set g y x v = Inr g'"
  shows "\<exists>j i. j < length g \<and> i < length (g ! j) \<and> grid_get g y x = Inr (g ! j ! i) \<and>
           g' = put g j i v"
proof -
  from assms obtain j i where "norm_index (length g) y = Inr j"
    "norm_index (length (g ! j)) x = Inr i" "g' = put g j i v"
    unfolding grid_set_Inr by blast
  then show ?thesis
    using norm_index_less grid_get_Inr by blast
qed

lemma put_nth:
  "j < length g \<Longrightarrow> put g j i v ! j' ! i' =
     (if j' = j \<and> i' = i \<and> i < length (g ! j) then v else g ! j' ! i')"
  by (auto simp: put_def nth_list_update list_update_beyond)

lemma put_length [simp]: "length (put g j i v) = length g"
  by (simp add: put_def)

lemma put_row_length [simp]: "length (put g j i v ! j') = length (g ! j')"
  by (cases "j < length g") (auto simp: put_def nth_list_update list_update_beyond)

lemma put_rect: "rect g W H \<Longrightarrow> rect (put g j i v) W H"
  by (simp add: rect_def)

lemma grid_get_rect:
  "rect g W H \<Longrightarrow> 0 \<le> y \<Longrightarrow> y < int H \<Longrightarrow> 0 \<le> x \<Longrightarrow> x < int W \<Longrightarrow>
     grid_get g y x = Inr (g ! nat y ! nat x)"
  by (simp add: grid_get_nonneg rect_def)

lemma grid_set_rect:
  "rect g W H \<Longrightarrow> 0 \<le> y \<Longrightarrow> y < int H \<Longrightarrow> 0 \<le> x \<Longrightarrow> x < int W \<Longrightarrow>
     grid_set g y x v = Inr (put g (nat y) (nat x) v)"
  by (simp add: grid_set_nonneg rect_def put_def)

lemma same_walls_refl: "same_walls g g"
  by (simp add: same_walls_def)

lemma same_walls_trans: "same_walls g g' \<Longrightarrow> same_walls g' g'' \<Longrightarrow> same_walls g g''"
  by (simp add: same_walls_def)

lemma same_walls_put:
  assumes "j < length g" "i < length (g ! j)" "g ! j ! i \<noteq> Wall" "v \<noteq> Wall"
  shows "same_walls g (put g j i v)"
proof -
  have "map (\<lambda>c. c = Wall) ((g ! j)[i := v]) = map (\<lambda>c. c = Wall) (g ! j)"
    using assms by (simp add: map_update list_update_same_conv)
  then have "map (map (\<lambda>c. c = Wall)) (g[j := (g ! j)[i := v]]) = map (map (\<lambda>c. c = Wall)) g"
    using assms(1) by (simp add: map_update list_update_same_conv)
  then show ?thesis by (simp add: same_walls_def put_def)
qed

lemma same_walls_nth:
  assumes "same_walls g g'"
  shows "length g' = length g"
    and "j < length g \<Longrightarrow> length (g' ! j) = length (g ! j)"
    and "j < length g \<Longrightarrow> i < length (g ! j) \<Longrightarrow> (g' ! j ! i = Wall) = (g ! j ! i = Wall)"
proof -
  let ?f = "map (map (\<lambda>c. c = Wall))"
  from assms have e: "?f g' = ?f g" by (simp add: same_walls_def)
  from arg_cong[OF e, of length] show l: "length g' = length g" by simp
  {
    assume j: "j < length g"
    from arg_cong[OF e, of "\<lambda>xs. xs ! j"] j l
    have r: "map (\<lambda>c. c = Wall) (g' ! j) = map (\<lambda>c. c = Wall) (g ! j)" by simp
    from arg_cong[OF r, of length] show rl: "length (g' ! j) = length (g ! j)" by simp
    assume i: "i < length (g ! j)"
    from arg_cong[OF r, of "\<lambda>xs. xs ! i"] i rl
    show "(g' ! j ! i = Wall) = (g ! j ! i = Wall)" by simp
  }
qed

lemma same_walls_border:
  assumes "same_walls g g'" "border_walls g"
  shows "border_walls g'"
  using assms(2) same_walls_nth[OF assms(1)] unfolding border_walls_def by simp

lemma same_walls_rect:
  assumes "same_walls g g'" "rect g W H"
  shows "rect g' W H"
  using assms(2) same_walls_nth(1,2)[OF assms(1)] unfolding rect_def by simp

lemma same_walls_get:
  assumes "same_walls g g'" "grid_get g y x = Inr c"
  shows "\<exists>c'. grid_get g' y x = Inr c' \<and> (c' = Wall) = (c = Wall)"
proof -
  from assms(2) obtain j i where n: "norm_index (length g) y = Inr j"
    "norm_index (length (g ! j)) x = Inr i" "c = g ! j ! i"
    unfolding grid_get_Inr by blast
  then have b: "j < length g" "i < length (g ! j)" by (auto dest: norm_index_less)
  with same_walls_nth(1)[OF assms(1)] same_walls_nth(2)[OF assms(1), of j]
    same_walls_nth(3)[OF assms(1), of j i] n
  have "grid_get g' y x = Inr (g' ! j ! i)" "(g' ! j ! i = Wall) = (c = Wall)"
    unfolding grid_get_Inr by auto
  then show ?thesis by blast
qed

lemma overwrite_walls:
  assumes "grid_set g y x v = Inr g'" "grid_get g y x = Inr c" "c \<noteq> Wall" "v \<noteq> Wall"
  shows "same_walls g g'"
proof -
  from grid_set_put[OF assms(1)] assms(2) obtain j i where
    "j < length g" "i < length (g ! j)" "g ! j ! i = c" "g' = put g j i v"
    by auto
  with assms(3,4) show ?thesis by (simp add: same_walls_put)
qed

lemma try_move_cases [consumes 1, case_names blocked won stepped]:
  assumes "try_move wd dx dy s = Inr (wd', s')"
  obtains
    (blocked) "target_cell wd dx dy = Inr Wall" "wd' = wd\<lparr>message := msg_wall\<rparr>" "s' = s"
  | (won) p where "target_cell wd dx dy = Inr Exit" "destination wd dx dy = Inr p"
      "wd' = (moved wd p)\<lparr>won := True, message := msg_victory\<rparr>" "s' = s"
  | (stepped) p c wd1 s1 where "destination wd dx dy = Inr p" "target_cell wd dx dy = Inr c"
      "c \<noteq> Wall" "c \<noteq> Exit"
      "if c = Floor then grid wd1 = grid wd
       else grid_set (grid wd) (snd p) (fst p) Floor = Inr (grid wd1)"
      "player_pos wd1 = p" "exit_spawned wd1 = exit_spawned wd" "won wd1 = won wd"
      "turn wd1 = turn wd + 1"
      "score wd1 = score wd + (if c = Treasure then 10 else 0)"
      "hp wd1 = hp wd + (if c = Trap then - 1 else if c = Heal then 2 else 0)"
      "post_move wd1 s1 = Inr (wd', s')"
proof -
  from assms obtain nx ny c where d: "destination wd dx dy = Inr (nx, ny)"
    and c: "grid_get (grid wd) ny nx = Inr c"
    by (auto simp: try_move_unfold ebind_eq_Inr)
  then have t: "target_cell wd dx dy = Inr c" by (simp add: target_cell_def)
  show thesis
  proof (cases c)
    case Wall
    with assms d c t show thesis by (intro blocked) (auto simp: try_move_unfold)
  next
    case Exit
    with assms d c t show thesis by (intro won[of "(nx, ny)"]) (auto simp: try_move_unfold)
  next
    case Floor
    with assms d c obtain m s1 where
      "post_move ((moved wd (nx, ny))\<lparr>message := m\<rparr>) s1 = Inr (wd', s')"
      by (auto simp: try_move_unfold ebind_eq_Inr)
    with d t Floor show thesis
      by (intro stepped[of "(nx, ny)" c "(moved wd (nx, ny))\<lparr>message := m\<rparr>" s1])
         (simp_all add: moved_def)
  next
    case Treasure
    with assms d c obtain g' where "grid_set (grid wd) ny nx Floor = Inr g'"
      "post_move ((moved wd (nx, ny))\<lparr>score := score wd + 10, message := msg_treasure,
          grid := g'\<rparr>) s = Inr (wd', s')"
      by (auto simp: try_move_unfold ebind_eq_Inr)
    with d t Treasure show thesis
      by (intro stepped[of "(nx, ny)" c "(moved wd (nx, ny))\<lparr>score := score wd + 10,
            message := msg_treasure, grid := g'\<rparr>" s])
         (simp_all add: moved_def)
  next
    case Trap
    with assms d c obtain g' where "grid_set (grid wd) ny nx Floor = Inr g'"
      "post_move ((moved wd (nx, ny))\<lparr>hp := hp wd - 1, message := msg_trap,
          grid := g'\<rparr>) s = Inr (wd', s')"
      by (auto simp: try_move_unfold ebind_eq_Inr)
    with d t Trap show thesis
      by (intro stepped[of "(nx, ny)" c "(moved wd (nx, ny))\<lparr>hp := hp wd - 1,
            message := msg_trap, grid := g'\<rparr>" s])
         (simp_all add: moved_def)
  next
    case Heal
    with assms d c obtain g' where "grid_set (grid wd) ny nx Floor = Inr g'"
      "post_move ((moved wd (nx, ny))\<lparr>hp := hp wd + 2, message := msg_heal,
          grid := g'\<rparr>) s = Inr (wd', s')"
      by (auto simp: try_move_unfold ebind_eq_Inr)
    with d t Heal show thesis
      by (intro stepped[of "(nx, ny)" c "(moved wd (nx, ny))\<lparr>hp := hp wd + 2,
            message := msg_heal, grid := g'\<rparr>" s])
         (simp_all add: moved_def)
  qed
qed

lemma event_spawned_walls:
  assumes "event_spawned wd wd'"
  shows "same_walls (grid wd) (grid wd')"
proof (cases "wd' = wd")
  case True
  then show ?thesis by (simp add: same_walls_refl)
next
  case False
  with assms obtain x y g' m where a: "spawn_site wd x y" "grid_set (grid wd) y x m = Inr g'"
    "m = Treasure \<or> m = Trap"
    and w: "wd' = wd\<lparr>grid := g', message := message wd @
                  (if m = Treasure then msg_new_treasure else msg_new_trap)\<rparr>"
    unfolding event_spawned_def by blast
  from a have "same_walls (grid wd) g'"
    by (intro overwrite_walls[OF a(2)]) (auto simp: spawn_site_def)
  then show ?thesis by (simp add: w)
qed

lemma exit_placed_walls:
  assumes "exit_placed wd wd'"
  shows "same_walls (grid wd) (grid wd')"
proof -
  from assms obtain x y g' where a: "spawn_site wd x y" "grid_set (grid wd) y x Exit = Inr g'"
    and w: "wd' = wd\<lparr>grid := g', exit_spawned := True, message := msg_exit_spawned\<rparr>"
    unfolding exit_placed_def by blast
  from a have "same_walls (grid wd) g'"
    by (intro overwrite_walls[OF a(2)]) (auto simp: spawn_site_def)
  then show ?thesis by (simp add: w)
qed

lemma post_move_walls:
  assumes "post_move wd s = Inr (wd', s')"
  shows "same_walls (grid wd) (grid wd')"
proof (cases "\<not> exit_spawned wd \<and> count_symbol (grid wd) Treasure = 0")
  case True
  then have "exit_placed wd wd' \<or> event_spawned (wd\<lparr>message := msg_exit_failed\<rparr>) wd'"
    using post_move_exit_due[OF assms] by simp
  then show ?thesis
    using exit_placed_walls event_spawned_walls[of "wd\<lparr>message := msg_exit_failed\<rparr>" wd']
    by auto
next
  case False
  then have "event_spawned wd wd'" using post_move_exit_not_due[OF assms] by simp
  then show ?thesis by (rule event_spawned_walls)
qed

lemma try_move_walls:
  assumes "try_move wd dx dy s = Inr (wd', s')"
  shows "same_walls (grid wd) (grid wd')"
  using assms
proof (cases rule: try_move_cases)
  case blocked
  then show ?thesis by (simp add: same_walls_refl)
next
  case (won p)
  then show ?thesis by (simp add: same_walls_refl moved_def)
next
  case (stepped p c wd1 s1)
  have "same_walls (grid wd) (grid wd1)"
  proof (cases "c = Floor")
    case True
    with stepped(5) show ?thesis by (simp add: same_walls_refl)
  next
    case False
    with stepped(5) have g: "grid_set (grid wd) (snd p) (fst p) Floor = Inr (grid wd1)" by simp
    from stepped(1,2) have "grid_get (grid wd) (snd p) (fst p) = Inr c"
      by (cases p) (simp add: target_cell_def)
    from overwrite_walls[OF g this stepped(3)] show ?thesis by simp
  qed
  with post_move_walls[OF stepped(12)] show ?thesis by (rule same_walls_trans[rotated])
qed

lemma count_list_update:
  "i < length xs \<Longrightarrow>
     count_list (xs[i := v]) k + (if xs ! i = k then 1 else 0) =
     count_list xs k + (if v = k then 1 else 0)"
proof (induction xs arbitrary: i)
  case Nil
  then show ?case by simp
next
  case (Cons a xs)
  show ?case
  proof (cases i)
    case 0
    then show ?thesis by simp
  next
    case (Suc n)
    with Cons.prems have "n < length xs" by simp
    from Cons.IH[OF this] Suc show ?thesis by (auto split: if_splits)
  qed
qed

lemma sum_list_map_update:
  fixes f :: "'a \<Rightarrow> nat"
  shows "j < length xs \<Longrightarrow>
     sum_list (map f (xs[j := r])) + f (xs ! j) = sum_list (map f xs) + f r"
proof (induction xs arbitrary: j)
  case Nil
  then show ?case by simp
next
  case (Cons a xs)
  show ?case
  proof (cases j)
    case 0
    then show ?thesis by simp
  next
    case (Suc n)
    with Cons.prems have "n < length xs" by simp
    from Cons.IH[OF this] Suc show ?thesis by simp
  qed
qed

lemma count_put:
  assumes "j < length g" "i < length (g ! j)"
  shows "count_symbol (put g j i v) k + (if g ! j ! i = k then 1 else 0) =
         count_symbol g k + (if v = k then 1 else 0)"
proof -
  have "count_symbol (put g j i v) k + count_list (g ! j) k =
        count_symbol g k + count_list ((g ! j)[i := v]) k"
    unfolding count_symbol_def put_def
    using sum_list_map_update[OF assms(1), of "\<lambda>row. count_list row k"] by simp
  with count_list_update[OF assms(2), of v k] show ?thesis by (auto split: if_splits)
qed

lemma overwrite_count:
  assumes "grid_set g y x v = Inr g'" "grid_get g y x = Inr c"
  shows "count_symbol g' k + (if c = k then 1 else 0) =
         count_symbol g k + (if v = k then 1 else 0)"
proof -
  from grid_set_put[OF assms(1)] assms(2) obtain j i where
    "j < length g" "i < length (g ! j)" "g ! j ! i = c" "g' = put g j i v"
    by auto
  with count_put[of j g i v k] show ?thesis by simp
qed

lemma count_symbol_present:
  assumes "grid_get g y x = Inr c"
  shows "0 < count_symbol g c"
proof -
  from assms obtain j i where "j < length g" "i < length (g ! j)" "c = g ! j ! i"
    unfolding grid_get_Inr by (auto dest: norm_index_less)
  then have "g ! j \<in> set g" "c \<in> set (g ! j)" by simp_all
  then have "count_list (g ! j) c \<noteq> 0"
    and m: "count_list (g ! j) c \<in> set (map (\<lambda>row. count_list row c) g)"
    by (simp_all add: count_list_0_iff)
  moreover from member_le_sum_list[OF m]
  have "count_list (g ! j) c \<le> count_symbol g c" by (simp add: count_symbol_def)
  ultimately show ?thesis by simp
qed

section \<open>Moves on sound worlds\<close>

lemma randrange_ok: "a < b \<Longrightarrow> \<exists>x. randrange a b s = Inr (x, stl s) \<and> a \<le> x \<and> x < b"
proof -
  assume "a < b"
  then have "randrange a b s = Inr (a + int (shd s) mod (b - a), stl s)"
    by (simp add: randrange_def)
  with randrange_bounds[OF this] show ?thesis by blast
qed


lemma maybe_spawn_loop_total:
  assumes "rect (grid wd) W H" "3 \<le> W" "3 \<le> H"
  shows "\<exists>r. maybe_spawn_loop n wd symbol (int W) (int H) s = Inr r"
proof (induction n arbitrary: s)
  case 0
  show ?case by simp
next
  case (Suc n)
  from assms obtain x where x: "randrange 1 (int W - 1) s = Inr (x, stl s)" "1 \<le> x" "x < int W - 1"
    using randrange_ok[of 1 "int W - 1" s] by auto
  from assms obtain y where y: "randrange 1 (int H - 1) (stl s) = Inr (y, stl (stl s))"
    "1 \<le> y" "y < int H - 1"
    using randrange_ok[of 1 "int H - 1" "stl s"] by auto
  from x y have b: "0 \<le> y" "y < int H" "0 \<le> x" "x < int W" by simp_all
  note g = grid_get_rect[OF assms(1) b] grid_set_rect[OF assms(1) b]
  from Suc[of "stl (stl s)"] obtain r where
    "maybe_spawn_loop n wd symbol (int W) (int H) (stl (stl s)) = Inr r"
    by blast
  then show ?case by (simp add: x y g)
qed

lemma rect_row0: "rect g W H \<Longrightarrow> 0 < H \<Longrightarrow> getitem g 0 = Inr (g ! 0) \<and> length (g ! 0) = W"
  by (simp add: getitem_nonneg rect_def)


lemma maybe_spawn_total:
  assumes "rect (grid wd) W H" "3 \<le> W" "3 \<le> H"
  shows "\<exists>r. maybe_spawn wd s = Inr r"
proof (cases "exit_spawned wd")
  case True
  then show ?thesis by (simp add: maybe_spawn_idle)
next
  case False
  from assms have "getitem (grid wd) 0 = Inr (grid wd ! 0)" "length (grid wd ! 0) = W"
    "length (grid wd) = H"
    using rect_row0[of "grid wd" W H] by (simp_all add: rect_def)
  with maybe_spawn_loop_total[OF assms, of 60 _ "stl s"] show ?thesis
    unfolding maybe_spawn_active[OF False] by (simp del: maybe_spawn_loop.simps)
qed


lemma sound_destination:
  assumes "sound W H wd"
  shows "\<exists>nx ny. destination wd dx dy = Inr (nx, ny) \<and> 0 \<le> nx \<and> nx < int W \<and>
           0 \<le> ny \<and> ny < int H"
proof -
  from assms have r: "rect (grid wd) W H" and p: "0 < W" "0 < H" by (simp_all add: sound_def)
  from rect_row0[OF r p(2)] r p show ?thesis
    by (auto simp: destination_def clamp_def rect_def)
qed



lemma post_move_pos: "post_move wd s = Inr (wd', s') \<Longrightarrow> player_pos wd' = player_pos wd"
  using post_move_untouched[of wd s wd' s'] by (simp add: untouched_def)

lemma try_move_sound:
  assumes "sound W H wd" "try_move wd dx dy s = Inr (wd', s')"
  shows "sound W H wd'"
proof -
  note w = try_move_walls[OF assms(2)]
  from assms(1) have g: "rect (grid wd') W H" "border_walls (grid wd')" "0 < W" "0 < H"
    using same_walls_rect[OF w] same_walls_border[OF w] by (simp_all add: sound_def)
  from sound_destination[OF assms(1), of dx dy] obtain nx ny where
    d: "destination wd dx dy = Inr (nx, ny)" and
    b: "0 \<le> ny" "ny < int H" "0 \<le> nx" "nx < int W" by blast
  from assms(2) have "player_pos wd' = player_pos wd \<or> player_pos wd' = (nx, ny)"
  proof (cases rule: try_move_cases)
    case blocked
    then show ?thesis by simp
  next
    case (won p)
    with d show ?thesis by (simp add: moved_def)
  next
    case (stepped p c wd1 s1)
    with d post_move_pos[OF stepped(12)] show ?thesis by simp
  qed
  with assms(1) g b show ?thesis by (auto simp: sound_def)
qed

lemma try_move_standing:
  assumes "standing wd" "try_move wd dx dy s = Inr (wd', s')"
  shows "standing wd'"
proof -
  note w = try_move_walls[OF assms(2)]
  have keep: "\<exists>c'. grid_get (grid wd') y x = Inr c' \<and> c' \<noteq> Wall"
    if "grid_get (grid wd) y x = Inr c" "c \<noteq> Wall" for x y c
    using same_walls_get[OF w that(1)] that(2) by auto
  from assms(2) show ?thesis
  proof (cases rule: try_move_cases)
    case blocked
    with assms(1) show ?thesis by (simp add: standing_def)
  next
    case (won p)
    obtain nx ny where p: "p = (nx, ny)" by (cases p)
    from won(1,2) have "grid_get (grid wd) ny nx = Inr Exit" by (simp add: target_cell_def p)
    from keep[OF this] destination_nonneg[of wd dx dy nx ny] won(2,3) p show ?thesis
      by (simp add: standing_def moved_def)
  next
    case (stepped p c wd1 s1)
    obtain nx ny where p: "p = (nx, ny)" by (cases p)
    from stepped(1,2) have "grid_get (grid wd) ny nx = Inr c" by (simp add: target_cell_def p)
    from keep[OF this stepped(3)] destination_nonneg[of wd dx dy nx ny] stepped(1,6) p
      post_move_pos[OF stepped(12)]
    show ?thesis by (simp add: standing_def)
  qed
qed

section \<open>World generation\<close>

lemma py_range_set: "set (py_range n) = {i. 0 \<le> i \<and> i < n}"
proof -
  have "set (py_range n) = int ` {0..<nat n}" by (simp add: py_range_def)
  also have "\<dots> = {i. 0 \<le> i \<and> i < n}"
  proof (intro set_eqI iffI)
    fix i assume "i \<in> int ` {0..<nat n}"
    then show "i \<in> {i. 0 \<le> i \<and> i < n}" by auto
  next
    fix i assume "i \<in> {i. 0 \<le> i \<and> i < n}"
    then have "nat i \<in> {0..<nat n}" "i = int (nat i)" by auto
    then show "i \<in> int ` {0..<nat n}" by (rule_tac image_eqI[of _ _ "nat i"]) auto
  qed
  finally show ?thesis .
qed

text \<open>The two border loops, on a rectangular grid and columns (rows) in range.\<close>

lemma wall_rows_result:
  assumes "rect g W H" "0 < H" "\<forall>x\<in>set xs. 0 \<le> x \<and> x < int W"
  shows "\<exists>g'. wall_rows xs (int H) g = Inr g' \<and> rect g' W H \<and>
     (\<forall>j<H. \<forall>i<W. g' ! j ! i =
        (if int i \<in> set xs \<and> (j = 0 \<or> Suc j = H) then Wall else g ! j ! i))"
  using assms
proof (induction xs arbitrary: g)
  case Nil
  then show ?case by simp
next
  case (Cons x xs)
  from Cons.prems have x: "0 \<le> x" "x < int W" by simp_all
  define g1 where "g1 = put g 0 (nat x) Wall"
  define g2 where "g2 = put g1 (H - 1) (nat x) Wall"
  have r1: "rect g1 W H" unfolding g1_def by (rule put_rect[OF Cons.prems(1)])
  have r2: "rect g2 W H" unfolding g2_def by (rule put_rect[OF r1])
  have s1: "grid_set g 0 x Wall = Inr g1"
    using grid_set_rect[OF Cons.prems(1), of 0 x Wall] x Cons.prems(2) by (simp add: g1_def)
  have s2: "grid_set g1 (int H - 1) x Wall = Inr g2"
    using grid_set_rect[OF r1, of "int H - 1" x Wall] x Cons.prems(2)
    by (simp add: g2_def nat_diff_distrib)
  from Cons.IH[OF r2 Cons.prems(2)] Cons.prems(3) obtain g' where
    g': "wall_rows xs (int H) g2 = Inr g'" "rect g' W H"
    "\<forall>j<H. \<forall>i<W. g' ! j ! i =
        (if int i \<in> set xs \<and> (j = 0 \<or> Suc j = H) then Wall else g2 ! j ! i)"
    by auto
  have l: "length g = H" "length g1 = H" "\<forall>j<H. length (g ! j) = W" "\<forall>j<H. length (g1 ! j) = W"
    using Cons.prems(1) r1 by (simp_all add: rect_def)
  have n: "g2 ! j ! i = (if i = nat x \<and> (j = 0 \<or> Suc j = H) then Wall else g ! j ! i)"
    if "j < H" "i < W" for j i
    using that l x Cons.prems(2) unfolding g2_def g1_def
    by (auto simp: put_nth)
  have "wall_rows (x # xs) (int H) g = Inr g'" by (simp add: s1 s2 g'(1))
  moreover have "g' ! j ! i =
        (if int i \<in> set (x # xs) \<and> (j = 0 \<or> Suc j = H) then Wall else g ! j ! i)"
    if "j < H" "i < W" for j i
    using g'(3) n[OF that] that x by auto
  ultimately show ?case using g'(2) by blast
qed

lemma wall_cols_result:
  assumes "rect g W H" "0 < W" "\<forall>y\<in>set ys. 0 \<le> y \<and> y < int H"
  shows "\<exists>g'. wall_cols ys (int W) g = Inr g' \<and> rect g' W H \<and>
     (\<forall>j<H. \<forall>i<W. g' ! j ! i =
        (if int j \<in> set ys \<and> (i = 0 \<or> Suc i = W) then Wall else g ! j ! i))"
  using assms
proof (induction ys arbitrary: g)
  case Nil
  then show ?case by simp
next
  case (Cons y ys)
  from Cons.prems have y: "0 \<le> y" "y < int H" by simp_all
  define g1 where "g1 = put g (nat y) 0 Wall"
  define g2 where "g2 = put g1 (nat y) (W - 1) Wall"
  have r1: "rect g1 W H" unfolding g1_def by (rule put_rect[OF Cons.prems(1)])
  have r2: "rect g2 W H" unfolding g2_def by (rule put_rect[OF r1])
  have s1: "grid_set g y 0 Wall = Inr g1"
    using grid_set_rect[OF Cons.prems(1), of y 0 Wall] y Cons.prems(2) by (simp add: g1_def)
  have s2: "grid_set g1 y (int W - 1) Wall = Inr g2"
    using grid_set_rect[OF r1, of y "int W - 1" Wall] y Cons.prems(2)
    by (simp add: g2_def nat_diff_distrib)
  from Cons.IH[OF r2 Cons.prems(2)] Cons.prems(3) obtain g' where
    g': "wall_cols ys (int W) g2 = Inr g'" "rect g' W H"
    "\<forall>j<H. \<forall>i<W. g' ! j ! i =
        (if int j \<in> set ys \<and> (i = 0 \<or> Suc i = W) then Wall else g2 ! j ! i)"
    by auto
  have l: "length g = H" "length g1 = H" "\<forall>j<H. length (g ! j) = W" "\<forall>j<H. length (g1 ! j) = W"
    using Cons.prems(1) r1 by (simp_all add: rect_def)
  have n: "g2 ! j ! i = (if j = nat y \<and> (i = 0 \<or> Suc i = W) then Wall else g ! j ! i)"
    if "j < H" "i < W" for j i
    using that l y Cons.prems(2) unfolding g2_def g1_def
    by (auto simp: put_nth)
  have "wall_cols (y # ys) (int W) g = Inr g'" by (simp add: s1 s2 g'(1))
  moreover have "g' ! j ! i =
        (if int j \<in> set (y # ys) \<and> (i = 0 \<or> Suc i = W) then Wall else g ! j ! i)"
    if "j < H" "i < W" for j i
    using g'(3) n[OF that] that y by auto
  ultimately show ?case using g'(2) by blast
qed

lemma make_grid_rect: "rect (make_grid (int W) (int H) fill) W H"
  by (simp add: make_grid_def rect_def)

lemma make_grid_nth: "j < H \<Longrightarrow> i < W \<Longrightarrow> make_grid (int W) (int H) fill ! j ! i = fill"
  by (simp add: make_grid_def)

lemma walled_grid:
  assumes "0 < W" "0 < H"
  shows "\<exists>g1 g2. wall_rows (py_range (int W)) (int H) (make_grid (int W) (int H) Floor) = Inr g1 \<and>
     wall_cols (py_range (int H)) (int W) g1 = Inr g2 \<and> rect g2 W H \<and>
     (\<forall>j<H. \<forall>i<W. g2 ! j ! i = (if on_border W H i j then Wall else Floor))"
proof -
  have rx: "\<forall>x\<in>set (py_range (int W)). 0 \<le> x \<and> x < int W"
    and ry: "\<forall>y\<in>set (py_range (int H)). 0 \<le> y \<and> y < int H"
    by (simp_all add: py_range_set)
  from wall_rows_result[OF make_grid_rect assms(2) rx, of Floor] obtain g1 where
    g1: "wall_rows (py_range (int W)) (int H) (make_grid (int W) (int H) Floor) = Inr g1"
    "rect g1 W H"
    "\<forall>j<H. \<forall>i<W. g1 ! j ! i =
        (if int i \<in> set (py_range (int W)) \<and> (j = 0 \<or> Suc j = H) then Wall
         else make_grid (int W) (int H) Floor ! j ! i)"
    by blast
  from wall_cols_result[OF g1(2) assms(1) ry] obtain g2 where
    g2: "wall_cols (py_range (int H)) (int W) g1 = Inr g2" "rect g2 W H"
    "\<forall>j<H. \<forall>i<W. g2 ! j ! i =
        (if int j \<in> set (py_range (int H)) \<and> (i = 0 \<or> Suc i = W) then Wall else g1 ! j ! i)"
    by blast
  have "g2 ! j ! i = (if on_border W H i j then Wall else Floor)" if "j < H" "i < W" for j i
    using that g1(3) g2(3) by (auto simp: py_range_set on_border_def make_grid_nth)
  with g1(1) g2(1,2) show ?thesis by blast
qed

lemma filled_refl: "filled S F g g"
  by (simp add: filled_def)

lemma filled_trans:
  assumes "filled S F g g'" "filled S F g' g''"
  shows "filled S F g g''"
  unfolding filled_def
proof (intro conjI allI impI)
  from assms show "length g'' = length g" by (simp add: filled_def)
next
  fix j assume j: "j < length g"
  with assms show "length (g'' ! j) = length (g ! j)" by (simp add: filled_def)
next
  fix j i assume j: "j < length g" and i: "i < length (g ! j)"
  from assms(1) j i have 1: "g' ! j ! i = g ! j ! i \<or>
      (g ! j ! i = Floor \<and> g' ! j ! i \<in> S \<and> (int i, int j) \<notin> F)"
    and l: "j < length g'" "i < length (g' ! j)"
    by (simp_all add: filled_def)
  from assms(2) l have 2: "g'' ! j ! i = g' ! j ! i \<or>
      (g' ! j ! i = Floor \<and> g'' ! j ! i \<in> S \<and> (int i, int j) \<notin> F)"
    by (simp add: filled_def)
  from 1 2 show "g'' ! j ! i = g ! j ! i \<or>
      (g ! j ! i = Floor \<and> g'' ! j ! i \<in> S \<and> (int i, int j) \<notin> F)"
    by auto
qed

lemma filled_mono: "S \<subseteq> S' \<Longrightarrow> filled S F g g' \<Longrightarrow> filled S' F g g'"
  unfolding filled_def by blast

lemma filled_put:
  assumes "j < length g" "i < length (g ! j)" "g ! j ! i = Floor" "(int i, int j) \<notin> F" "v \<in> S"
  shows "filled S F g (put g j i v)"
  unfolding filled_def using assms by (auto simp: put_nth)

lemma filled_rect: "filled S F g g' \<Longrightarrow> rect g W H \<Longrightarrow> rect g' W H"
  by (simp add: filled_def rect_def)

lemma place_loop_result:
  assumes "0 < W" "0 < H"
  shows "rect g W H \<Longrightarrow>
     \<exists>g' s'. place_loop symbol count F (int W) (int H) g placed tries s = Inr (g', s') \<and>
       filled {symbol} F g g'"
proof (induction "10000 - tries" arbitrary: g placed tries s rule: less_induct)
  case less
  show ?case
  proof (cases "placed < count \<and> tries < 10000")
    case False
    then have "place_loop symbol count F (int W) (int H) g placed tries s = Inr (g, s)"
      by (subst place_loop.simps) auto
    then show ?thesis by (simp add: filled_refl)
  next
    case True
    then have m: "10000 - (tries + 1) < 10000 - tries" by linarith
    from assms obtain x where x: "randrange 0 (int W) s = Inr (x, stl s)" "0 \<le> x" "x < int W"
      using randrange_ok[of 0 "int W" s] by auto
    from assms obtain y where y: "randrange 0 (int H) (stl s) = Inr (y, stl (stl s))"
      "0 \<le> y" "y < int H"
      using randrange_ok[of 0 "int H" "stl s"] by auto
    note gg = grid_get_rect[OF less.prems y(2,3) x(2,3)]
    note gs = grid_set_rect[OF less.prems y(2,3) x(2,3), of symbol]
    define g1 where "g1 = put g (nat y) (nat x) symbol"
    have e: "place_loop symbol count F (int W) (int H) g placed tries s =
       (if (x, y) \<in> F \<or> g ! nat y ! nat x \<noteq> Floor
        then place_loop symbol count F (int W) (int H) g placed (tries + 1) (stl (stl s))
        else place_loop symbol count F (int W) (int H) g1 (placed + 1) (tries + 1) (stl (stl s)))"
      using True by (subst place_loop.simps) (simp add: x y gg gs g1_def)
    show ?thesis
    proof (cases "(x, y) \<in> F \<or> g ! nat y ! nat x \<noteq> Floor")
      case True
      with e less.hyps[OF m less.prems, of placed "stl (stl s)"] show ?thesis by simp
    next
      case False
      from less.prems x y have b: "nat y < length g" "nat x < length (g ! nat y)"
        by (auto simp: rect_def)
      from False x y have "filled {symbol} F g g1"
        unfolding g1_def by (intro filled_put b) simp_all
      moreover have "rect g1 W H" unfolding g1_def by (rule put_rect[OF less.prems])
      from less.hyps[OF m this, of "placed + 1" "stl (stl s)"] obtain g' s' where
        "place_loop symbol count F (int W) (int H) g1 (placed + 1) (tries + 1) (stl (stl s))
           = Inr (g', s')" "filled {symbol} F g1 g'"
        by blast
      ultimately show ?thesis using e False by (auto intro: filled_trans)
    qed
  qed
qed

lemma place_random_result:
  assumes "0 < W" "0 < H" "rect g W H" "symbol \<in> S"
  shows "\<exists>g' s'. place_random g symbol count F s = Inr (g', s') \<and> rect g' W H \<and>
           filled S F g g'"
proof -
  from rect_row0[OF assms(3,2)] assms(3)
  have "place_random g symbol count F s = place_loop symbol count F (int W) (int H) g 0 0 s"
    by (simp add: place_random_def rect_def)
  with place_loop_result[OF assms(1-3), of symbol count F 0 0 s] obtain g' s' where
    "place_random g symbol count F s = Inr (g', s')" "filled {symbol} F g g'"
    by auto
  with assms(3,4) filled_mono[of "{symbol}" S F g g'] filled_rect[of S F g g' W H]
  show ?thesis by auto
qed

lemma fold_insert_keeps:
  "p \<in> F \<Longrightarrow> p \<in> fold (\<lambda>x F. insert (a x) (insert (b x) F)) xs F"
  by (induction xs arbitrary: F) simp_all

lemma forbidden_player:
  "p \<in> forbid_cols width height (forbid_rows width height {p})"
  unfolding forbid_cols_def forbid_rows_def
  by (intro fold_insert_keeps) simp

lemma build_world_result:
  assumes "0 < W" "0 < H"
  shows "\<exists>wd s'. build_world (int W) (int H) s = Inr (wd, s') \<and> fresh W H wd"
proof -
  define S where "S = {Wall, Treasure, Trap, Heal}"
  define F where "F = forbid_cols (int W) (int H)
     (forbid_rows (int W) (int H) {(int W div 2, int H div 2)})"
  have p: "(int (W div 2), int (H div 2)) \<in> F"
    unfolding F_def using forbidden_player[of "(int W div 2, int H div 2)"]
    by (simp add: zdiv_int)
  from walled_grid[OF assms] obtain g1 g2 where
    w: "wall_rows (py_range (int W)) (int H) (make_grid (int W) (int H) Floor) = Inr g1"
    "wall_cols (py_range (int H)) (int W) g1 = Inr g2" "rect g2 W H"
    and g2: "\<forall>j<H. \<forall>i<W. g2 ! j ! i = (if on_border W H i j then Wall else Floor)"
    by blast
  from place_random_result[OF assms w(3), of Wall S "max 6 (int W * int H div 18)" F s]
  obtain g3 s3 where 3: "place_random g2 Wall (max 6 (int W * int H div 18)) F s = Inr (g3, s3)"
    "rect g3 W H" "filled S F g2 g3"
    by (auto simp: S_def)
  from place_random_result[OF assms 3(2), of Treasure S "max 4 (int W * int H div 30)" F s3]
  obtain g4 s4 where 4:
    "place_random g3 Treasure (max 4 (int W * int H div 30)) F s3 = Inr (g4, s4)"
    "rect g4 W H" "filled S F g3 g4"
    by (auto simp: S_def)
  from place_random_result[OF assms 4(2), of Trap S "max 4 (int W * int H div 35)" F s4]
  obtain g5 s5 where 5:
    "place_random g4 Trap (max 4 (int W * int H div 35)) F s4 = Inr (g5, s5)"
    "rect g5 W H" "filled S F g4 g5"
    by (auto simp: S_def)
  from place_random_result[OF assms 5(2), of Heal S 1 F s5]
  obtain g6 s6 where 6: "place_random g5 Heal 1 F s5 = Inr (g6, s6)"
    "rect g6 W H" "filled S F g5 g6"
    by (auto simp: S_def)
  define wd where "wd = \<lparr> grid = g6, player_pos = (int W div 2, int H div 2), score = 0,
     hp = 5, turn = 0, message = msg_welcome, exit_spawned = False, won = False \<rparr>"
  have b: "build_world (int W) (int H) s = Inr (wd, s6)"
    unfolding build_world_def Let_def F_def[symmetric]
    by (simp add: w 3(1) 4(1) 5(1) 6(1) wd_def)
  have f: "filled S F g2 g6"
    using 3(3) 4(3) 5(3) 6(3) by (blast intro: filled_trans)
  from w(3) have l: "length g2 = H" "\<forall>j<H. length (g2 ! j) = W" by (simp_all add: rect_def)
  have c: "g6 ! j ! i = g2 ! j ! i \<or> (g2 ! j ! i = Floor \<and> g6 ! j ! i \<in> S \<and> (int i, int j) \<notin> F)"
    if "j < H" "i < W" for j i
    using f that l unfolding filled_def by simp
  have 1: "g6 ! j ! i = Wall" if "j < H" "i < W" "on_border W H i j" for j i
    using c[OF that(1,2)] g2 that by simp
  have 2: "g6 ! j ! i \<noteq> Exit" if "j < H" "i < W" for j i
    using c[OF that] g2 that by (auto simp: S_def split: if_splits)
  have 3: "g6 ! (H div 2) ! (W div 2) = Floor" if "\<not> on_border W H (W div 2) (H div 2)"
    using c[of "H div 2" "W div 2"] g2 that p assms by simp
  from 1 2 3 6(2) have "fresh W H wd"
    unfolding fresh_def by (simp add: wd_def zdiv_int)
  with b show ?thesis by blast
qed

lemma py_range_Cons: "0 < n \<Longrightarrow> py_range n = 0 # map int [1..<nat n]"
  by (simp add: py_range_def upt_conv_Cons)

lemma py_range_Nil: "n \<le> 0 \<Longrightarrow> py_range n = []"
  by (simp add: py_range_def)

lemma build_world_flat: "height \<le> 0 \<Longrightarrow> build_world width height s = Inl IndexError"
proof (cases "0 < width")
  case True
  assume "height \<le> 0"
  then have "make_grid width height Floor = []" by (simp add: make_grid_def)
  then show ?thesis
    by (simp add: build_world_def py_range_Cons[OF True] grid_set_def getitem_def norm_index_def)
next
  case False
  assume h: "height \<le> 0"
  then have "make_grid width height Floor = []" by (simp add: make_grid_def)
  with False h show ?thesis
    by (simp add: build_world_def py_range_Nil place_random_def getitem_def norm_index_def)
qed

lemma build_world_thin:
  assumes "0 < height" "width \<le> 0"
  shows "build_world width height s = Inl IndexError"
proof -
  from assms have "make_grid width height Floor = replicate (nat height) []"
    by (simp add: make_grid_def)
  with assms show ?thesis
    by (simp add: build_world_def py_range_Nil py_range_Cons grid_set_def getitem_def
          setitem_def norm_index_def)
qed

lemma build_world_dims:
  assumes "build_world width height s = Inr r"
  shows "0 < width \<and> 0 < height"
  using assms build_world_flat[of height width s] build_world_thin[of height width s]
  by (cases "0 < height"; cases "0 < width") auto

lemma build_world_fresh:
  assumes "build_world width height s = Inr (wd, s')"
  shows "0 < width \<and> 0 < height \<and> fresh (nat width) (nat height) wd"
proof -
  from build_world_dims[OF assms] have d: "0 < width" "0 < height" by simp_all
  then have "0 < nat width" "0 < nat height" by simp_all
  from build_world_result[OF this, of s] assms d show ?thesis by auto
qed

section \<open>Exits\<close>

lemma event_spawned_exits:
  assumes "event_spawned wd wd'"
  shows "count_symbol (grid wd') Exit = count_symbol (grid wd) Exit"
    and "exit_spawned wd' = exit_spawned wd"
    and "\<exists>m. message wd' = message wd @ m"
proof -
  have "count_symbol (grid wd') Exit = count_symbol (grid wd) Exit \<and>
        exit_spawned wd' = exit_spawned wd \<and> (\<exists>m. message wd' = message wd @ m)"
  proof (cases "wd' = wd")
    case True
    then show ?thesis by simp
  next
    case False
    with assms obtain x y g' m where a: "spawn_site wd x y" "grid_set (grid wd) y x m = Inr g'"
      "m = Treasure \<or> m = Trap"
      and w: "wd' = wd\<lparr>grid := g', message := message wd @
                  (if m = Treasure then msg_new_treasure else msg_new_trap)\<rparr>"
      unfolding event_spawned_def by blast
    from a(1) have "grid_get (grid wd) y x = Inr Floor" by (simp add: spawn_site_def)
    from overwrite_count[OF a(2) this, of Exit] a(3) have "count_symbol g' Exit = count_symbol (grid wd) Exit"
      by auto
    then show ?thesis by (simp add: w)
  qed
  then show "count_symbol (grid wd') Exit = count_symbol (grid wd) Exit"
    and "exit_spawned wd' = exit_spawned wd"
    and "\<exists>m. message wd' = message wd @ m"
    by simp_all
qed

lemma exit_placed_exits:
  assumes "exit_placed wd wd'"
  shows "count_symbol (grid wd') Exit = count_symbol (grid wd) Exit + 1"
    and "count_symbol (grid wd') Treasure = count_symbol (grid wd) Treasure"
    and "exit_spawned wd'" and "message wd' = msg_exit_spawned"
proof -
  from assms obtain x y g' where a: "spawn_site wd x y" "grid_set (grid wd) y x Exit = Inr g'"
    and w: "wd' = wd\<lparr>grid := g', exit_spawned := True, message := msg_exit_spawned\<rparr>"
    unfolding exit_placed_def by blast
  from a(1) have f: "grid_get (grid wd) y x = Inr Floor" by (simp add: spawn_site_def)
  from overwrite_count[OF a(2) f, of Exit] overwrite_count[OF a(2) f, of Treasure]
  show "count_symbol (grid wd') Exit = count_symbol (grid wd) Exit + 1"
    and "count_symbol (grid wd') Treasure = count_symbol (grid wd) Treasure"
    and "exit_spawned wd'" and "message wd' = msg_exit_spawned"
    by (simp_all add: w)
qed

text \<open>The world between the interaction with the cell and the steps after it.\<close>

lemma stepped_counts:
  assumes "destination wd dx dy = Inr p" "target_cell wd dx dy = Inr c" "c \<noteq> Exit"
    "if c = Floor then grid wd1 = grid wd
     else grid_set (grid wd) (snd p) (fst p) Floor = Inr (grid wd1)"
  shows "count_symbol (grid wd1) Exit = count_symbol (grid wd) Exit"
    and "count_symbol (grid wd1) Treasure + (if c = Treasure then 1 else 0) =
         count_symbol (grid wd) Treasure"
proof -
  have "count_symbol (grid wd1) Exit = count_symbol (grid wd) Exit \<and>
        count_symbol (grid wd1) Treasure + (if c = Treasure then 1 else 0) =
         count_symbol (grid wd) Treasure"
  proof (cases "c = Floor")
    case True
    with assms(4) show ?thesis by simp
  next
    case False
    with assms(4) have g: "grid_set (grid wd) (snd p) (fst p) Floor = Inr (grid wd1)" by simp
    from assms(1,2) have t: "grid_get (grid wd) (snd p) (fst p) = Inr c"
      by (cases p) (simp add: target_cell_def)
    from overwrite_count[OF g t, of Exit] overwrite_count[OF g t, of Treasure] assms(3)
    show ?thesis by (auto split: if_splits)
  qed
  then show "count_symbol (grid wd1) Exit = count_symbol (grid wd) Exit"
    and "count_symbol (grid wd1) Treasure + (if c = Treasure then 1 else 0) =
         count_symbol (grid wd) Treasure"
    by simp_all
qed

lemma post_move_exit_consistent:
  assumes "post_move wd s = Inr (wd', s')" "exit_consistent wd"
  shows "exit_consistent wd'"
proof (cases "\<not> exit_spawned wd \<and> count_symbol (grid wd) Treasure = 0")
  case True
  then have "exit_placed wd wd' \<or> event_spawned (wd\<lparr>message := msg_exit_failed\<rparr>) wd'"
    using post_move_exit_due[OF assms(1)] by simp
  then show ?thesis
  proof
    assume "exit_placed wd wd'"
    from exit_placed_exits(1,3)[OF this] True assms(2) show ?thesis
      by (simp add: exit_consistent_def)
  next
    assume "event_spawned (wd\<lparr>message := msg_exit_failed\<rparr>) wd'"
    from event_spawned_exits(1,2)[OF this] assms(2) show ?thesis
      by (simp add: exit_consistent_def)
  qed
next
  case False
  then have "event_spawned wd wd'" using post_move_exit_not_due[OF assms(1)] by simp
  from event_spawned_exits(1,2)[OF this] assms(2) show ?thesis
    by (simp add: exit_consistent_def)
qed

lemma try_move_exit_consistent:
  assumes "try_move wd dx dy s = Inr (wd', s')" "exit_consistent wd"
  shows "exit_consistent wd'"
  using assms(1)
proof (cases rule: try_move_cases)
  case blocked
  with assms(2) show ?thesis by (simp add: exit_consistent_def)
next
  case (won p)
  with assms(2) show ?thesis by (simp add: exit_consistent_def moved_def)
next
  case (stepped p c wd1 s1)
  from stepped_counts(1)[OF stepped(1,2,4,5)] stepped(7) assms(2)
  have "exit_consistent wd1" by (simp add: exit_consistent_def)
  with stepped(12) show ?thesis by (rule post_move_exit_consistent)
qed

lemma try_move_exit_kept:
  assumes "try_move wd dx dy s = Inr (wd', s')" "exit_spawned wd"
  shows "exit_spawned wd'"
  using assms(1)
proof (cases rule: try_move_cases)
  case blocked
  with assms(2) show ?thesis by simp
next
  case (won p)
  with assms(2) show ?thesis by (simp add: moved_def)
next
  case (stepped p c wd1 s1)
  with assms(2) have "event_spawned wd1 wd'"
    using post_move_exit_not_due[OF stepped(12)] by simp
  from event_spawned_exits(2)[OF this] stepped(7) assms(2) show ?thesis by simp
qed

lemma try_move_exit_appears:
  assumes "try_move wd dx dy s = Inr (wd', s')" "\<not> exit_spawned wd" "exit_spawned wd'"
  shows "\<exists>c. target_cell wd dx dy = Inr c \<and> c \<noteq> Wall \<and> c \<noteq> Exit \<and>
           count_symbol (grid wd) Treasure = (if c = Treasure then 1 else 0) \<and>
           count_symbol (grid wd') Treasure = 0 \<and>
           count_symbol (grid wd') Exit = count_symbol (grid wd) Exit + 1 \<and>
           message wd' = msg_exit_spawned"
  using assms(1)
proof (cases rule: try_move_cases)
  case blocked
  with assms(2,3) show ?thesis by simp
next
  case (won p)
  with assms(2,3) show ?thesis by (simp add: moved_def)
next
  case (stepped p c wd1 s1)
  note n = stepped_counts[OF stepped(1,2,4,5)]
  have due: "\<not> exit_spawned wd1 \<and> count_symbol (grid wd1) Treasure = 0"
  proof (rule ccontr)
    assume "\<not> ?thesis"
    then have "event_spawned wd1 wd'" using post_move_exit_not_due[OF stepped(12)] by simp
    from event_spawned_exits(2)[OF this] stepped(7) assms(2,3) show False by simp
  qed
  then have "exit_placed wd1 wd' \<or> event_spawned (wd1\<lparr>message := msg_exit_failed\<rparr>) wd'"
    using post_move_exit_due[OF stepped(12)] by simp
  then have "exit_placed wd1 wd'"
  proof
    assume "event_spawned (wd1\<lparr>message := msg_exit_failed\<rparr>) wd'"
    from event_spawned_exits(2)[OF this] stepped(7) assms(2,3) show ?thesis by simp
  qed
  from exit_placed_exits[OF this] n due stepped(2,3,4) show ?thesis
    by (intro exI[of _ c]) (auto split: if_splits)
qed

lemma try_move_exit_due:
  assumes "try_move wd dx dy s = Inr (wd', s')" "\<not> exit_spawned wd"
    "target_cell wd dx dy = Inr c" "c \<noteq> Wall" "c \<noteq> Exit"
    "count_symbol (grid wd) Treasure = (if c = Treasure then 1 else 0)"
  shows "exit_spawned wd' \<or> (\<exists>m. message wd' = msg_exit_failed @ m)"
  using assms(1)
proof (cases rule: try_move_cases)
  case blocked
  with assms(3,4) show ?thesis by simp
next
  case (won p)
  with assms(3,5) show ?thesis by simp
next
  case (stepped p c' wd1 s1)
  with assms(3) have cc: "c' = c" by simp
  note n = stepped_counts(2)[OF stepped(1,2,4,5)]
  from n assms(6) cc stepped(7) assms(2)
  have "\<not> exit_spawned wd1 \<and> count_symbol (grid wd1) Treasure = 0"
    by (auto split: if_splits)
  then have "exit_placed wd1 wd' \<or> event_spawned (wd1\<lparr>message := msg_exit_failed\<rparr>) wd'"
    using post_move_exit_due[OF stepped(12)] by simp
  then show ?thesis
  proof
    assume "exit_placed wd1 wd'"
    from exit_placed_exits(3)[OF this] show ?thesis by simp
  next
    assume "event_spawned (wd1\<lparr>message := msg_exit_failed\<rparr>) wd'"
    from event_spawned_exits(3)[OF this] show ?thesis by simp
  qed
qed

section \<open>Reachable worlds\<close>

lemma no_exit_count:
  assumes "rect g W H" "\<forall>j<H. \<forall>i<W. g ! j ! i \<noteq> Exit"
  shows "count_symbol g Exit = 0"
proof -
  have "count_list row Exit = 0" if "row \<in> set g" for row
  proof -
    from that obtain j where j: "j < length g" "row = g ! j" by (auto simp: in_set_conv_nth)
    with assms have "Exit \<notin> set (g ! j)" by (auto simp: in_set_conv_nth rect_def)
    with j show ?thesis by (simp add: count_list_0_iff)
  qed
  then show ?thesis by (simp add: count_symbol_def)
qed

lemma fresh_sound:
  assumes "0 < W" "0 < H" "fresh W H wd"
  shows "sound W H wd" and "exit_consistent wd" and "3 \<le> W \<Longrightarrow> 3 \<le> H \<Longrightarrow> standing wd"
proof -
  from assms(3) have r: "rect (grid wd) W H"
    and b: "\<forall>j<H. \<forall>i<W. on_border W H i j \<longrightarrow> grid wd ! j ! i = Wall"
    and e: "\<forall>j<H. \<forall>i<W. grid wd ! j ! i \<noteq> Exit"
    and c: "\<not> on_border W H (W div 2) (H div 2) \<longrightarrow> grid wd ! (H div 2) ! (W div 2) = Floor"
    and p: "player_pos wd = (int (W div 2), int (H div 2))" and x: "\<not> exit_spawned wd"
    by (simp_all add: fresh_def)
  from r b have "border_walls (grid wd)" by (simp add: border_walls_def rect_def)
  with r p assms(1,2) show "sound W H wd" by (simp add: sound_def)
  from no_exit_count[OF r e] x show "exit_consistent wd" by (simp add: exit_consistent_def)
  assume w: "3 \<le> W" "3 \<le> H"
  then have "\<not> on_border W H (W div 2) (H div 2)" by (auto simp: on_border_def)
  with c have "grid wd ! (H div 2) ! (W div 2) = Floor" by simp
  moreover have "grid_get (grid wd) (int (H div 2)) (int (W div 2)) =
      Inr (grid wd ! (H div 2) ! (W div 2))"
    using grid_get_rect[OF r, of "int (H div 2)" "int (W div 2)"] w by simp
  ultimately show "standing wd" by (simp add: standing_def p)
qed

lemma reachable_invariant:
  assumes "reachable width height wd"
  shows "0 < width \<and> 0 < height \<and> sound (nat width) (nat height) wd \<and> exit_consistent wd \<and>
         (3 \<le> width \<and> 3 \<le> height \<longrightarrow> standing wd)"
  using assms
proof (induction rule: reachable.induct)
  case (create s wd s')
  from build_world_fresh[OF create] have d: "0 < nat width" "0 < nat height"
    and f: "fresh (nat width) (nat height) wd" by simp_all
  from fresh_sound[OF d f] d show ?case by auto
next
  case (move wd dx dy s wd' s')
  with try_move_sound[OF _ move(2)] try_move_exit_consistent[OF move(2)]
    try_move_standing[OF _ move(2)]
  show ?case by blast
next
  case (narrate wd m)
  then have "sound (nat width) (nat height) (wd\<lparr>message := m\<rparr>) = sound (nat width) (nat height) wd"
    "exit_consistent (wd\<lparr>message := m\<rparr>) = exit_consistent wd"
    "standing (wd\<lparr>message := m\<rparr>) = standing wd"
    by (simp_all add: sound_def exit_consistent_def standing_def)
  with narrate.IH show ?case by simp
qed

text \<open>On the tape of zeros every pick is the corner (0, 0), which is forbidden.\<close>

lemma place_loop_zeros:
  assumes "0 < w" "0 < h" "(0, 0) \<in> F"
  shows "place_loop symbol count F w h g placed tries zeros = Inr (g, zeros)"
proof (induction "10000 - tries" arbitrary: tries rule: less_induct)
  case less
  show ?case
  proof (cases "placed < count \<and> tries < 10000")
    case False
    then show ?thesis by (subst place_loop.simps) auto
  next
    case True
    then have "10000 - (tries + 1) < 10000 - tries" by linarith
    from less[OF this] True assms show ?thesis
      by (subst place_loop.simps) (simp add: randrange_def zeros_def)
  qed
qed

lemma place_random_zeros:
  assumes "g \<noteq> []" "g ! 0 \<noteq> []" "(0, 0) \<in> F"
  shows "place_random g symbol count F zeros = Inr (g, zeros)"
  using assms by (simp add: place_random_def place_loop_zeros getitem_nonneg)

lemma py_range_values:
  "py_range 1 = [0]" "py_range 3 = [0, 1, 2]" "py_range 5 = [0, 1, 2, 3, 4]"
  by code_simp+

lemma make_grid_values:
  "make_grid 1 1 c = [[c]]"
  "make_grid 5 3 c = [[c, c, c, c, c], [c, c, c, c, c], [c, c, c, c, c]]"
  by (simp_all add: make_grid_def eval_nat_numeral)

lemmas build_defs = build_world_def Let_def make_grid_values py_range_values forbid_rows_def
  forbid_cols_def grid_set_def getitem_def setitem_def norm_index_def place_random_zeros

lemma build_pit: "build_world 1 1 zeros = Inr (pit, zeros)"
  by (simp add: build_defs pit_def)

lemma build_room5: "build_world 5 3 zeros = Inr (room5, zeros)"
  by (simp add: build_defs room5_def)

lemma room5_step: "try_move room5 1 0 zeros = Inr (room5_exit, zeros)"
  by (simp add: room5_def room5_exit_def run_defs flavor_texts_def)


section \<open>Invariants of the reachable worlds\<close>

lemma reachable_samples:
  "reachable 1 1 pit" "reachable 5 3 room5" "reachable 5 3 room5_exit"
proof -
  show "reachable 1 1 pit" by (rule reachable.create[OF build_pit])
  show r: "reachable 5 3 room5" by (rule reachable.create[OF build_room5])
  show "reachable 5 3 room5_exit" by (rule reachable.move[OF r room5_step])
qed




text \<open>
  Claim C4. In every world returned by \<open>build_world\<close>, whatever the dimensions it was
  called with, and in every world reached from it by moves, the grid has the
  dimensions of the call and every cell of the first and last row and of the first and
  last column holds a wall.
\<close>

theorem border_ring_walls:
  assumes "reachable width height wd"
    and "0 \<le> x" "x < width" "0 \<le> y" "y < height"
    and "x = 0 \<or> y = 0 \<or> x = width - 1 \<or> y = height - 1"
  shows "grid_get (grid wd) y x = Inr Wall"
proof -
  from reachable_invariant[OF assms(1)] have r: "rect (grid wd) (nat width) (nat height)"
    and b: "border_walls (grid wd)" by (simp_all add: sound_def)
  from assms(2-5) have n: "x < int (nat width)" "y < int (nat height)" by simp_all
  from assms(2-5) have m: "nat y < nat height" "nat x < nat width" by simp_all
  with r have l: "nat y < length (grid wd)" "nat x < length (grid wd ! nat y)"
    "length (grid wd) = nat height" "length (grid wd ! nat y) = nat width"
    by (simp_all add: rect_def)
  from assms(2-6) have "on_border (nat width) (nat height) (nat x) (nat y)"
    by (auto simp: on_border_def)
  with b l have "grid wd ! nat y ! nat x = Wall" unfolding border_walls_def by metis
  with grid_get_rect[OF r assms(4) n(2) assms(2) n(1)] show ?thesis by simp
qed

theorem border_ring_walls_witness:
  "reachable 5 3 room5_exit \<and> (0::int) \<le> 4 \<and> (4::int) < 5 \<and> (0::int) \<le> 1 \<and> (1::int) < 3 \<and>
   ((4::int) = 0 \<or> (1::int) = 0 \<or> (4::int) = 5 - 1 \<or> (1::int) = 3 - 1) \<and>
   grid_get (grid room5_exit) 1 4 = Inr Wall"
  using border_ring_walls[OF reachable_samples(3), of 4 1] reachable_samples(3) by simp

text \<open>
  Claim C5, as the code has it. A world built with width and height of at least 3 has
  the player at the centre \<open>(width div 2, height div 2)\<close>, and in every world reached
  from it the player position is within the grid and the cell there is not a wall.
  (With a width or height below 3 the centre lies on the border ring.)
\<close>

theorem player_off_walls:
  assumes "3 \<le> width" "3 \<le> height" "reachable width height wd"
  shows "0 \<le> fst (player_pos wd) \<and> fst (player_pos wd) < width \<and>
         0 \<le> snd (player_pos wd) \<and> snd (player_pos wd) < height \<and>
         (\<exists>c. grid_get (grid wd) (snd (player_pos wd)) (fst (player_pos wd)) = Inr c \<and>
              c \<noteq> Wall) \<and>
         (build_world width height s = Inr (wd0, s0) \<longrightarrow>
            player_pos wd0 = (width div 2, height div 2))"
proof -
  from reachable_invariant[OF assms(3)] assms(1,2)
  have "sound (nat width) (nat height) wd" "standing wd" by simp_all
  moreover have "player_pos wd0 = (width div 2, height div 2)"
    if "build_world width height s = Inr (wd0, s0)"
    using build_world_fresh[OF that] by (simp add: fresh_def zdiv_int)
  ultimately show ?thesis using assms(1,2) by (simp add: sound_def standing_def)
qed

theorem player_off_walls_witness:
  "(3::int) \<le> 5 \<and> (3::int) \<le> 3 \<and> reachable 5 3 room5_exit \<and>
   build_world 5 3 zeros = Inr (room5, zeros) \<and> player_pos room5 = (5 div 2, 3 div 2) \<and>
   0 \<le> fst (player_pos room5_exit) \<and> fst (player_pos room5_exit) < 5 \<and>
   0 \<le> snd (player_pos room5_exit) \<and> snd (player_pos room5_exit) < 3 \<and>
   (\<exists>c. grid_get (grid room5_exit) (snd (player_pos room5_exit)) (fst (player_pos room5_exit))
          = Inr c \<and> c \<noteq> Wall)"
  using player_off_walls[of 5 3 room5_exit zeros room5 zeros] reachable_samples(3) build_room5
  by simp

theorem player_on_wall_counterexample:
  "build_world 1 1 zeros = Inr (pit, zeros) \<and> reachable 1 1 pit \<and>
   grid_get (grid pit) (snd (player_pos pit)) (fst (player_pos pit)) = Inr Wall"
  using build_pit reachable_samples(1)
  by (simp add: pit_def grid_get_def getitem_def norm_index_def)




text \<open>
  Claim C1. In every reachable world the grid holds exactly one exit cell if the exit
  has spawned and none otherwise, so never more than one. For a move from a reachable
  world: a spawned exit stays spawned (and the count stays at one); the exit appears
  during the move only if no exit had spawned and the move, neither blocked nor
  winning, left no treasure on the grid, and then the grid holds no treasure and the
  message announces the exit; conversely such a move either places the exit or reports
  the failed placement at the head of the message, with \<open>exit_spawned\<close> still false, so
  that the next such move tries again.
\<close>

theorem exit_lifecycle:
  assumes "reachable width height wd"
  shows "count_symbol (grid wd) Exit = (if exit_spawned wd then 1 else 0) \<and>
    (try_move wd dx dy s = Inr (wd', s') \<longrightarrow>
       count_symbol (grid wd') Exit = (if exit_spawned wd' then 1 else 0) \<and>
       (exit_spawned wd \<longrightarrow> exit_spawned wd') \<and>
       (\<not> exit_spawned wd \<and> exit_spawned wd' \<longrightarrow>
          (\<exists>c. target_cell wd dx dy = Inr c \<and> c \<noteq> Wall \<and> c \<noteq> Exit \<and>
               count_symbol (grid wd) Treasure = (if c = Treasure then 1 else 0)) \<and>
          count_symbol (grid wd') Treasure = 0 \<and> message wd' = msg_exit_spawned) \<and>
       (\<not> exit_spawned wd \<and>
        (\<exists>c. target_cell wd dx dy = Inr c \<and> c \<noteq> Wall \<and>
             count_symbol (grid wd) Treasure = (if c = Treasure then 1 else 0)) \<longrightarrow>
          exit_spawned wd' \<or> (\<exists>m. message wd' = msg_exit_failed @ m)))"
proof (intro conjI impI)
  from reachable_invariant[OF assms] have e: "exit_consistent wd" by simp
  then show "count_symbol (grid wd) Exit = (if exit_spawned wd then 1 else 0)"
    by (simp add: exit_consistent_def)
  {
    assume m: "try_move wd dx dy s = Inr (wd', s')"
    from try_move_exit_consistent[OF m e]
    show "count_symbol (grid wd') Exit = (if exit_spawned wd' then 1 else 0)"
      by (simp add: exit_consistent_def)
    {
      assume "exit_spawned wd"
      then show "exit_spawned wd'" by (rule try_move_exit_kept[OF m])
    }
    {
      assume a: "\<not> exit_spawned wd \<and> exit_spawned wd'"
      from try_move_exit_appears[OF m] a
      show "\<exists>c. target_cell wd dx dy = Inr c \<and> c \<noteq> Wall \<and> c \<noteq> Exit \<and>
               count_symbol (grid wd) Treasure = (if c = Treasure then 1 else 0)"
        and "count_symbol (grid wd') Treasure = 0" and "message wd' = msg_exit_spawned"
        by blast+
    }
    {
      assume a: "\<not> exit_spawned wd \<and>
        (\<exists>c. target_cell wd dx dy = Inr c \<and> c \<noteq> Wall \<and>
             count_symbol (grid wd) Treasure = (if c = Treasure then 1 else 0))"
      then obtain c where c: "target_cell wd dx dy = Inr c" "c \<noteq> Wall"
        "count_symbol (grid wd) Treasure = (if c = Treasure then 1 else 0)"
        and n: "\<not> exit_spawned wd" by blast
      have "c \<noteq> Exit"
      proof
        assume x: "c = Exit"
        from c(1) obtain nx ny where "grid_get (grid wd) ny nx = Inr c"
          by (auto simp: target_cell_def ebind_eq_Inr)
        from count_symbol_present[OF this] x e n show False
          by (simp add: exit_consistent_def)
      qed
      from try_move_exit_due[OF m n c(1,2) this c(3)]
      show "exit_spawned wd' \<or> (\<exists>m. message wd' = msg_exit_failed @ m)" .
    }
  }
qed

theorem exit_lifecycle_witness:
  "reachable 5 3 room5 \<and> try_move room5 1 0 zeros = Inr (room5_exit, zeros) \<and>
   \<not> exit_spawned room5 \<and> exit_spawned room5_exit \<and>
   count_symbol (grid room5) Exit = 0 \<and> count_symbol (grid room5_exit) Exit = 1 \<and>
   target_cell room5 1 0 = Inr Floor \<and> count_symbol (grid room5) Treasure = 0 \<and>
   count_symbol (grid room5_exit) Treasure = 0 \<and> message room5_exit = msg_exit_spawned"
proof -
  have f: "\<not> exit_spawned room5" "exit_spawned room5_exit" "target_cell room5 1 0 = Inr Floor"
    "count_symbol (grid room5) Treasure = 0"
    by (simp_all add: room5_def room5_exit_def run_defs)
  from exit_lifecycle[OF reachable_samples(2), of 1 0 zeros room5_exit zeros] room5_step f
  have "count_symbol (grid room5) Exit = 0" "count_symbol (grid room5_exit) Exit = 1"
    "count_symbol (grid room5_exit) Treasure = 0" "message room5_exit = msg_exit_spawned"
    by simp_all
  with f room5_step reachable_samples(2) show ?thesis by simp
qed

section \<open>The quote utility: reported failures\<close>

text \<open>
  Claim C9. Whatever the one request delivers, \<open>main\<close> returns after its prints. A
  transport failure, a status other than 200, a body that is not JSON, a JSON object
  whose \<open>message\<close> field is missing, is not a string or is the empty string, and a
  JSON value that is not an object each make it print exactly one line, the error
  line of that failure; the quote is printed only when status 200 comes with an object
  whose \<open>message\<close> is a non-empty string. The request is made once.
\<close>

theorem quote_failures_reported:
  "trump_quote_main (Unreachable e) = [Erreur (Contact e)] \<and>
   (status \<noteq> 200 \<longrightarrow> trump_quote_main (Reply status body) = [Erreur (Status status)]) \<and>
   trump_quote_main (Reply 200 Malformed) = [Erreur InvalidJson] \<and>
   (\<not> (\<exists>quote. map_of kvs ''message'' = Some (JString quote) \<and> quote \<noteq> []) \<longrightarrow>
      trump_quote_main (Reply 200 (Parsed (JObject kvs))) = [Erreur (Unexpected (JObject kvs))]) \<and>
   ((\<forall>kvs'. data \<noteq> JObject kvs') \<longrightarrow>
      (\<exists>t. trump_quote_main (Reply 200 (Parsed data)) = [Erreur (Other t)])) \<and>
   (get_random_trump_quote r = Inl f \<longrightarrow> trump_quote_main r = [Erreur f]) \<and>
   (get_random_trump_quote r = Inr q \<longrightarrow>
      trump_quote_main r = [Heading, Quoted q] \<and>
      (\<exists>kvs' quote. r = Reply 200 (Parsed (JObject kvs')) \<and>
         map_of kvs' ''message'' = Some (JString quote) \<and> quote \<noteq> [] \<and> q = strip quote))"
proof (intro conjI impI)
  show "trump_quote_main (Unreachable e) = [Erreur (Contact e)]"
    by (simp add: trump_quote_main_def get_random_trump_quote_def)
  show "trump_quote_main (Reply 200 Malformed) = [Erreur InvalidJson]"
    by (simp add: trump_quote_main_def get_random_trump_quote_def)
next
  assume "status \<noteq> 200"
  then show "trump_quote_main (Reply status body) = [Erreur (Status status)]"
    by (simp add: trump_quote_main_def get_random_trump_quote_def)
next
  assume "\<not> (\<exists>quote. map_of kvs ''message'' = Some (JString quote) \<and> quote \<noteq> [])"
  then show "trump_quote_main (Reply 200 (Parsed (JObject kvs))) =
      [Erreur (Unexpected (JObject kvs))]"
    by (auto simp: trump_quote_main_def get_random_trump_quote_def
          split: option.splits json.splits)
next
  assume "\<forall>kvs'. data \<noteq> JObject kvs'"
  then show "\<exists>t. trump_quote_main (Reply 200 (Parsed data)) = [Erreur (Other t)]"
    by (cases data) (simp_all add: trump_quote_main_def get_random_trump_quote_def)
next
  assume "get_random_trump_quote r = Inl f"
  then show "trump_quote_main r = [Erreur f]" by (simp add: trump_quote_main_def)
next
  assume q: "get_random_trump_quote r = Inr q"
  then show "trump_quote_main r = [Heading, Quoted q]" by (simp add: trump_quote_main_def)
  from q show "\<exists>kvs' quote. r = Reply 200 (Parsed (JObject kvs')) \<and>
         map_of kvs' ''message'' = Some (JString quote) \<and> quote \<noteq> [] \<and> q = strip quote"
    by (auto simp: get_random_trump_quote_def
          split: reply.splits payload.splits json.splits option.splits if_splits)
qed

theorem quote_failures_reported_witness:
  "((404::int) \<noteq> 200 \<and> trump_quote_main (Reply 404 Malformed) = [Erreur (Status 404)]) \<and>
   (\<not> (\<exists>quote. map_of [(''msg'', JString ''hi'')] ''message'' = Some (JString quote) \<and> quote \<noteq> []) \<and>
    trump_quote_main (Reply 200 (Parsed (JObject [(''msg'', JString ''hi'')]))) =
      [Erreur (Unexpected (JObject [(''msg'', JString ''hi'')]))]) \<and>
   ((\<forall>kvs'. JArray [] \<noteq> JObject kvs') \<and>
    (\<exists>t. trump_quote_main (Reply 200 (Parsed (JArray []))) = [Erreur (Other t)])) \<and>
   (get_random_trump_quote (Unreachable ''timed out'') = Inl (Contact ''timed out'') \<and>
    trump_quote_main (Unreachable ''timed out'') = [Erreur (Contact ''timed out'')]) \<and>
   (get_random_trump_quote (Reply 200 (Parsed (JObject [(''message'', JString '' hi '')])))
      = Inr ''hi'' \<and>
    trump_quote_main (Reply 200 (Parsed (JObject [(''message'', JString '' hi '')])))
      = [Heading, Quoted ''hi''])"
proof -
  have g: "get_random_trump_quote (Unreachable ''timed out'') = Inl (Contact ''timed out'')"
    "get_random_trump_quote (Reply 200 (Parsed (JObject [(''message'', JString '' hi '')])))
      = Inr ''hi''"
    by (simp_all add: get_random_trump_quote_def strip_def is_space_def)
  from quote_failures_reported[where status = 404 and body = Malformed
      and kvs = "[(''msg'', JString ''hi'')]" and data = "JArray []"]
  have 1: "trump_quote_main (Reply 404 Malformed) = [Erreur (Status 404)]"
    and 2: "trump_quote_main (Reply 200 (Parsed (JObject [(''msg'', JString ''hi'')]))) =
      [Erreur (Unexpected (JObject [(''msg'', JString ''hi'')]))]"
    and 3: "\<exists>t. trump_quote_main (Reply 200 (Parsed (JArray []))) = [Erreur (Other t)]"
    by simp_all
  from quote_failures_reported[where r = "Unreachable ''timed out''" and f = "Contact ''timed out''"]
    g(1)
  have 4: "trump_quote_main (Unreachable ''timed out'') = [Erreur (Contact ''timed out'')]"
    by blast
  from quote_failures_reported[where
      r = "Reply 200 (Parsed (JObject [(''message'', JString '' hi '')]))" and q = "''hi''"] g(2)
  have 5: "trump_quote_main (Reply 200 (Parsed (JObject [(''message'', JString '' hi '')])))
      = [Heading, Quoted ''hi'']"
    by blast
  from 1 2 3 4 5 g show ?thesis by simp
qed

section \<open>The random event of a move\<close>

lemma pick_Suc: "pick w h t (Suc k) = pick w h (stl (stl t)) k"
  by (simp add: pick_def)

lemma pick_0: "pick w h t 0 = (1 + int (shd t) mod (w - 2), 1 + int (shd (stl t)) mod (h - 2))"
  by (simp add: pick_def)

lemma maybe_spawn_loop_first_site:
  assumes "maybe_spawn_loop n wd symbol w h t = Inr (wd', s')"
  shows "((\<forall>k<n. \<not> spawn_site wd (fst (pick w h t k)) (snd (pick w h t k))) \<longrightarrow>
            wd' = wd \<and> s' = sdrop (2 * n) t) \<and>
         (\<forall>k<n. spawn_site wd (fst (pick w h t k)) (snd (pick w h t k)) \<and>
              (\<forall>i<k. \<not> spawn_site wd (fst (pick w h t i)) (snd (pick w h t i))) \<longrightarrow>
            (\<exists>g'. grid_set (grid wd) (snd (pick w h t k)) (fst (pick w h t k)) symbol = Inr g' \<and>
               wd' = wd\<lparr>grid := g', message := message wd @
                    (if symbol = Treasure then msg_new_treasure else msg_new_trap)\<rparr>) \<and>
            s' = sdrop (2 * k + 2) t)"
  using assms
proof (induction n arbitrary: t)
  case 0
  then show ?case by simp
next
  case (Suc n)
  let ?site = "\<lambda>t k. spawn_site wd (fst (pick w h t k)) (snd (pick w h t k))"
  define x where "x = fst (pick w h t 0)"
  define y where "y = snd (pick w h t 0)"
  define t2 where "t2 = stl (stl t)"
  from Suc.prems have rx: "randrange 1 (w - 1) t = Inr (x, stl t)"
    and ry: "randrange 1 (h - 1) (stl t) = Inr (y, t2)"
    by (auto simp: ebind_eq_Inr randrange_Inr x_def y_def t2_def pick_0)
  from randrange_bounds[OF rx] randrange_bounds[OF ry] have b: "1 \<le> x" "1 \<le> y" by simp_all
  from Suc.prems rx ry have rest:
    "(if (x, y) = player_pos wd then maybe_spawn_loop n wd symbol w h t2
       else ebind (grid_get (grid wd) y x) (\<lambda>c.
         if c = Floor then
           ebind (grid_set (grid wd) y x symbol) (\<lambda>g'.
             Inr (wd\<lparr>grid := g',
                     message := message wd @
                       (if symbol = Treasure then msg_new_treasure else msg_new_trap)\<rparr>, t2))
         else maybe_spawn_loop n wd symbol w h t2)) = Inr (wd', s')"
    by simp
  have shift: "?site t (Suc k) = ?site t2 k" for k
    by (simp add: pick_Suc t2_def)
  show ?case
  proof (cases "?site t 0")
    case True
    then have s0: "(x, y) \<noteq> player_pos wd" "grid_get (grid wd) y x = Inr Floor"
      by (simp_all add: spawn_site_def x_def y_def)
    with rest obtain g' where g': "grid_set (grid wd) y x symbol = Inr g'"
      "wd' = wd\<lparr>grid := g', message := message wd @
                    (if symbol = Treasure then msg_new_treasure else msg_new_trap)\<rparr>"
      "s' = t2"
      by (auto simp: ebind_eq_Inr)
    have only0: "k = 0" if "\<forall>i<k. \<not> ?site t i" for k
      using that True by (cases k) auto
    have d: "t2 = sdrop 2 t" by (simp add: t2_def numeral_2_eq_2)
    show ?thesis
    proof (intro conjI allI impI)
      assume "\<forall>k<Suc n. \<not> ?site t k"
      with True show "wd' = wd" "s' = sdrop (2 * Suc n) t" by auto
    next
      fix k assume "k < Suc n" and k: "?site t k \<and> (\<forall>i<k. \<not> ?site t i)"
      with only0 have k0: "k = 0" by blast
      from g' show "\<exists>g'. grid_set (grid wd) (snd (pick w h t k)) (fst (pick w h t k)) symbol
            = Inr g' \<and>
          wd' = wd\<lparr>grid := g', message := message wd @
                    (if symbol = Treasure then msg_new_treasure else msg_new_trap)\<rparr>"
        by (simp add: k0 x_def y_def)
      from g'(3) show "s' = sdrop (2 * k + 2) t" by (simp add: k0 t2_def numeral_2_eq_2)
    qed
  next
    case False
    have next_loop: "maybe_spawn_loop n wd symbol w h t2 = Inr (wd', s')"
    proof (cases "(x, y) = player_pos wd")
      case True
      with rest show ?thesis by simp
    next
      case np: False
      with rest obtain c where c: "grid_get (grid wd) y x = Inr c" by (auto simp: ebind_eq_Inr)
      with False np b have "c \<noteq> Floor" by (auto simp: spawn_site_def x_def y_def)
      with rest np c show ?thesis by simp
    qed
    note IH = Suc.IH[OF next_loop]
    have drop2: "sdrop m t2 = sdrop (m + 2) t" for m
      by (simp add: t2_def)
    show ?thesis
    proof (intro conjI allI impI)
      assume a: "\<forall>k<Suc n. \<not> ?site t k"
      then have "\<forall>k<n. \<not> ?site t2 k" using shift by auto
      with IH have "wd' = wd \<and> s' = sdrop (2 * n) t2" by blast
      then show "wd' = wd" "s' = sdrop (2 * Suc n) t" by (simp_all add: drop2)
    next
      fix k assume kn: "k < Suc n" and k: "?site t k \<and> (\<forall>i<k. \<not> ?site t i)"
      with False obtain k' where k': "k = Suc k'" by (cases k) auto
      with kn k shift have "k' < n" "?site t2 k'" "\<forall>i<k'. \<not> ?site t2 i"
        by auto
      with IH have r: "(\<exists>g'. grid_set (grid wd) (snd (pick w h t2 k')) (fst (pick w h t2 k')) symbol
            = Inr g' \<and>
          wd' = wd\<lparr>grid := g', message := message wd @
                    (if symbol = Treasure then msg_new_treasure else msg_new_trap)\<rparr>) \<and>
          s' = sdrop (2 * k' + 2) t2"
        by blast
      then show "\<exists>g'. grid_set (grid wd) (snd (pick w h t k)) (fst (pick w h t k)) symbol
            = Inr g' \<and>
          wd' = wd\<lparr>grid := g', message := message wd @
                    (if symbol = Treasure then msg_new_treasure else msg_new_trap)\<rparr>"
        by (simp add: k' pick_Suc t2_def)
      from r show "s' = sdrop (2 * k + 2) t" by (simp add: k' drop2)
    qed
  qed
qed

lemma try_move_interaction:
  assumes "try_move wd dx dy s = Inr r" "destination wd dx dy = Inr p"
    "target_cell wd dx dy = Inr c" "c \<noteq> Wall" "c \<noteq> Exit"
  shows "\<exists>g1. (if c = Floor then g1 = grid wd
               else grid_set (grid wd) (snd p) (fst p) Floor = Inr g1) \<and>
           post_move (interacted wd p c s g1) (if c = Floor then stl s else s) = Inr r"
proof -
  obtain nx ny where p: "p = (nx, ny)" by (cases p)
  from assms(2,3) have g: "grid_get (grid wd) ny nx = Inr c"
    by (simp add: target_cell_def p)
  have f: "random_choice flavor_texts s = Inr (flavor_texts ! (shd s mod 4), stl s)"
    by (simp add: random_choice_def flavor_texts_def)
  show ?thesis
  proof (cases "c = Floor")
    case True
    with assms(1,2) g f have "post_move ((moved wd (nx, ny))\<lparr>message := flavor_texts ! (shd s mod 4)\<rparr>)
        (stl s) = Inr r"
      by (simp add: try_move_unfold p)
    moreover have "(moved wd (nx, ny))\<lparr>message := flavor_texts ! (shd s mod 4)\<rparr> =
        interacted wd p c s (grid wd)"
      using True by (simp add: moved_def interacted_def p)
    ultimately show ?thesis using True by simp
  next
    case False
    with assms(4,5) have c: "c = Treasure \<or> c = Trap \<or> c = Heal" by (cases c) simp_all
    have "\<exists>g1. grid_set (grid wd) ny nx Floor = Inr g1 \<and>
       post_move (interacted wd p c s g1) s = Inr r"
      using c
    proof (elim disjE)
      assume t: "c = Treasure"
      with assms(1,2) g obtain g1 where s: "grid_set (grid wd) ny nx Floor = Inr g1"
        and pm: "post_move ((moved wd (nx, ny))\<lparr>score := score wd + 10,
            message := msg_treasure, grid := g1\<rparr>) s = Inr r"
        by (auto simp: try_move_unfold p ebind_eq_Inr)
      have "(moved wd (nx, ny))\<lparr>score := score wd + 10, message := msg_treasure, grid := g1\<rparr>
          = interacted wd p c s g1"
        by (simp add: moved_def interacted_def p t)
      with pm s show ?thesis by auto
    next
      assume t: "c = Trap"
      with assms(1,2) g obtain g1 where s: "grid_set (grid wd) ny nx Floor = Inr g1"
        and pm: "post_move ((moved wd (nx, ny))\<lparr>hp := hp wd - 1,
            message := msg_trap, grid := g1\<rparr>) s = Inr r"
        by (auto simp: try_move_unfold p ebind_eq_Inr)
      have "(moved wd (nx, ny))\<lparr>hp := hp wd - 1, message := msg_trap, grid := g1\<rparr>
          = interacted wd p c s g1"
        by (simp add: moved_def interacted_def p t)
      with pm s show ?thesis by auto
    next
      assume t: "c = Heal"
      with assms(1,2) g obtain g1 where s: "grid_set (grid wd) ny nx Floor = Inr g1"
        and pm: "post_move ((moved wd (nx, ny))\<lparr>hp := hp wd + 2,
            message := msg_heal, grid := g1\<rparr>) s = Inr r"
        by (auto simp: try_move_unfold p ebind_eq_Inr)
      have "(moved wd (nx, ny))\<lparr>hp := hp wd + 2, message := msg_heal, grid := g1\<rparr>
          = interacted wd p c s g1"
        by (simp add: moved_def interacted_def p t)
      with pm s show ?thesis by auto
    qed
    with False show ?thesis by (auto simp: p)
  qed
qed

lemma post_move_split:
  assumes "post_move wd1 s1 = Inr r"
  shows "\<exists>wd2 s2.
     (if \<not> exit_spawned wd1 \<and> count_symbol (grid wd1) Treasure = 0
      then spawn_exit wd1 s1 = Inr (wd2, s2) else wd2 = wd1 \<and> s2 = s1) \<and>
     maybe_spawn wd2 s2 = Inr r"
proof (cases "\<not> exit_spawned wd1 \<and> count_symbol (grid wd1) Treasure = 0")
  case True
  with assms obtain v where "spawn_exit wd1 s1 = Inr v" "maybe_spawn (fst v) (snd v) = Inr r"
    by (auto simp: post_move_def ebind_eq_Inr)
  then have "spawn_exit wd1 s1 = Inr (fst v, snd v) \<and> maybe_spawn (fst v) (snd v) = Inr r"
    by simp
  with True show ?thesis by (intro exI[of _ "fst v"] exI[of _ "snd v"]) simp
next
  case False
  with assms have "maybe_spawn wd1 s1 = Inr r" by (auto simp: post_move_def split: if_splits)
  with False show ?thesis by (intro exI[of _ wd1] exI[of _ s1]) auto
qed

lemma zeros_snth: "zeros !! n = 0"
  by (induction n) (simp_all add: zeros_def)

lemma maybe_spawn_loop_zeros:
  assumes "player_pos wd = (1, 1)" "2 < w" "2 < h"
  shows "maybe_spawn_loop n wd symbol w h zeros = Inr (wd, zeros)"
  using assms by (induction n) (simp_all add: randrange_def zeros_def)

lemma cell3_quiet: "maybe_spawn cell3 zeros = Inr (cell3, zeros)"
proof -
  have "\<not> exit_spawned cell3" "getitem (grid cell3) 0 = Inr [Wall, Wall, Wall]"
    "length (grid cell3) = 3" "player_pos cell3 = (1, 1)" "stl zeros = zeros"
    by (simp_all add: cell3_def getitem_def norm_index_def zeros_def)
  then show ?thesis
    by (simp add: maybe_spawn_active maybe_spawn_loop_zeros del: maybe_spawn_loop.simps)
qed

text \<open>
  Claim C8. \<open>maybe_spawn\<close> is the last step of a move that is neither blocked nor
  winning: what such a move returns is what \<open>maybe_spawn\<close> returns on the world left
  by the interaction and the exit check. With the exit spawned it returns the world
  unchanged and draws nothing. Otherwise it draws one roll. A roll that is not below
  the higher threshold changes nothing. A roll below the lower threshold selects a
  treasure, another roll below the higher threshold a trap; then up to 60 cells are
  drawn, and the symbol is written on the first drawn cell that is floor inside the
  border ring and not the player's, the flavour text of the symbol is appended to the
  message and the draws stop; if none of the 60 cells is such a cell, the world is
  returned unchanged after 121 draws. On a rectangular grid of width and height at
  least 3 it always returns.
\<close>

theorem random_event_spawn:
  "(exit_spawned wd \<longrightarrow> maybe_spawn wd s = Inr (wd, s)) \<and>
   (\<not> exit_spawned wd \<and> trap_threshold \<le> fst (random_unit s) \<longrightarrow>
      maybe_spawn wd s = Inr (wd, stl s)) \<and>
   (\<not> exit_spawned wd \<and> fst (random_unit s) < trap_threshold \<and>
    maybe_spawn wd s = Inr (wd', s') \<longrightarrow>
      ((\<forall>k<60. \<not> picks_site wd (stl s) k) \<longrightarrow> wd' = wd \<and> s' = sdrop 121 s) \<and>
      (\<forall>k<60. picks_site wd (stl s) k \<and> (\<forall>i<k. \<not> picks_site wd (stl s) i) \<longrightarrow>
         (\<exists>g'. grid_set (grid wd) (snd (picked wd (stl s) k)) (fst (picked wd (stl s) k))
                 (if fst (random_unit s) < treasure_threshold then Treasure else Trap) = Inr g' \<and>
            wd' = wd\<lparr>grid := g', message := message wd @
                   (if fst (random_unit s) < treasure_threshold then msg_new_treasure
                    else msg_new_trap)\<rparr>) \<and>
         s' = sdrop (2 * k + 3) s)) \<and>
   (rect (grid wd) W H \<and> 3 \<le> W \<and> 3 \<le> H \<longrightarrow> (\<exists>wd1 s1. maybe_spawn wd s = Inr (wd1, s1))) \<and>
   (try_move wd0 dx dy s0 = Inr r \<and> destination wd0 dx dy = Inr p \<and>
    target_cell wd0 dx dy = Inr c \<and> c \<noteq> Wall \<and> c \<noteq> Exit \<longrightarrow>
      (\<exists>g1 wd2 s2.
         (if c = Floor then g1 = grid wd0
          else grid_set (grid wd0) (snd p) (fst p) Floor = Inr g1) \<and>
         (if \<not> exit_spawned wd0 \<and> count_symbol g1 Treasure = 0
          then spawn_exit (interacted wd0 p c s0 g1) (if c = Floor then stl s0 else s0)
                 = Inr (wd2, s2)
          else wd2 = interacted wd0 p c s0 g1 \<and> s2 = (if c = Floor then stl s0 else s0)) \<and>
         maybe_spawn wd2 s2 = Inr r))"
proof -
  have c1: "exit_spawned wd \<longrightarrow> maybe_spawn wd s = Inr (wd, s)"
    by (simp add: maybe_spawn_idle)
  have c2: "\<not> exit_spawned wd \<and> trap_threshold \<le> fst (random_unit s) \<longrightarrow>
      maybe_spawn wd s = Inr (wd, stl s)"
  proof
    assume "\<not> exit_spawned wd \<and> trap_threshold \<le> fst (random_unit s)"
    then have h: "\<not> exit_spawned wd" "\<not> fst (random_unit s) < trap_threshold" by auto
    show "maybe_spawn wd s = Inr (wd, stl s)"
      unfolding maybe_spawn_active[OF h(1)] by (rule if_not_P[OF h(2)])
  qed
  have c4: "rect (grid wd) W H \<and> 3 \<le> W \<and> 3 \<le> H \<longrightarrow>
      (\<exists>wd1 s1. maybe_spawn wd s = Inr (wd1, s1))"
  proof
    assume "rect (grid wd) W H \<and> 3 \<le> W \<and> 3 \<le> H"
    then have "\<exists>r. maybe_spawn wd s = Inr r" using maybe_spawn_total[of wd W H s] by simp
    then show "\<exists>wd1 s1. maybe_spawn wd s = Inr (wd1, s1)" by auto
  qed
  have c5: "try_move wd0 dx dy s0 = Inr r \<and> destination wd0 dx dy = Inr p \<and>
    target_cell wd0 dx dy = Inr c \<and> c \<noteq> Wall \<and> c \<noteq> Exit \<longrightarrow>
      (\<exists>g1 wd2 s2.
         (if c = Floor then g1 = grid wd0
          else grid_set (grid wd0) (snd p) (fst p) Floor = Inr g1) \<and>
         (if \<not> exit_spawned wd0 \<and> count_symbol g1 Treasure = 0
          then spawn_exit (interacted wd0 p c s0 g1) (if c = Floor then stl s0 else s0)
                 = Inr (wd2, s2)
          else wd2 = interacted wd0 p c s0 g1 \<and> s2 = (if c = Floor then stl s0 else s0)) \<and>
         maybe_spawn wd2 s2 = Inr r)"
  proof
    assume a: "try_move wd0 dx dy s0 = Inr r \<and> destination wd0 dx dy = Inr p \<and>
      target_cell wd0 dx dy = Inr c \<and> c \<noteq> Wall \<and> c \<noteq> Exit"
    define s1 where "s1 = (if c = Floor then stl s0 else s0)"
    from a try_move_interaction[of wd0 dx dy s0 r p c] obtain g1 where
      g1: "if c = Floor then g1 = grid wd0
           else grid_set (grid wd0) (snd p) (fst p) Floor = Inr g1"
      and pm: "post_move (interacted wd0 p c s0 g1) s1 = Inr r"
      unfolding s1_def by blast
    have f: "exit_spawned (interacted wd0 p c s0 g1) = exit_spawned wd0"
      "grid (interacted wd0 p c s0 g1) = g1"
      by (simp_all add: interacted_def)
    from post_move_split[OF pm] obtain wd2 s2 where
      "if \<not> exit_spawned wd0 \<and> count_symbol g1 Treasure = 0
       then spawn_exit (interacted wd0 p c s0 g1) s1 = Inr (wd2, s2)
       else wd2 = interacted wd0 p c s0 g1 \<and> s2 = s1"
      "maybe_spawn wd2 s2 = Inr r"
      unfolding f by blast
    with g1 show "\<exists>g1 wd2 s2.
           (if c = Floor then g1 = grid wd0
            else grid_set (grid wd0) (snd p) (fst p) Floor = Inr g1) \<and>
           (if \<not> exit_spawned wd0 \<and> count_symbol g1 Treasure = 0
            then spawn_exit (interacted wd0 p c s0 g1) (if c = Floor then stl s0 else s0)
                   = Inr (wd2, s2)
            else wd2 = interacted wd0 p c s0 g1 \<and> s2 = (if c = Floor then stl s0 else s0)) \<and>
           maybe_spawn wd2 s2 = Inr r"
      unfolding s1_def by blast
  qed
  have c3: "\<not> exit_spawned wd \<and> fst (random_unit s) < trap_threshold \<and>
    maybe_spawn wd s = Inr (wd', s') \<longrightarrow>
      ((\<forall>k<60. \<not> picks_site wd (stl s) k) \<longrightarrow> wd' = wd \<and> s' = sdrop 121 s) \<and>
      (\<forall>k<60. picks_site wd (stl s) k \<and> (\<forall>i<k. \<not> picks_site wd (stl s) i) \<longrightarrow>
         (\<exists>g'. grid_set (grid wd) (snd (picked wd (stl s) k)) (fst (picked wd (stl s) k))
                 (if fst (random_unit s) < treasure_threshold then Treasure else Trap) = Inr g' \<and>
            wd' = wd\<lparr>grid := g', message := message wd @
                   (if fst (random_unit s) < treasure_threshold then msg_new_treasure
                    else msg_new_trap)\<rparr>) \<and>
         s' = sdrop (2 * k + 3) s)"
  proof
    define symbol where
      "symbol = (if fst (random_unit s) < treasure_threshold then Treasure else Trap)"
    assume a: "\<not> exit_spawned wd \<and> fst (random_unit s) < trap_threshold \<and>
      maybe_spawn wd s = Inr (wd', s')"
    then have h: "\<not> exit_spawned wd" "fst (random_unit s) < trap_threshold" by auto
    have "maybe_spawn wd s = ebind (getitem (grid wd) 0) (\<lambda>row0.
            maybe_spawn_loop 60 wd symbol (int (length row0)) (int (length (grid wd))) (stl s))"
      unfolding symbol_def maybe_spawn_active[OF h(1)] by (rule if_P[OF h(2)])
    with a obtain row0 :: "cell list" where
      r0: "getitem (grid wd) 0 = Inr row0" and
      l: "maybe_spawn_loop 60 wd symbol (int (length row0)) (int (length (grid wd))) (stl s)
           = Inr (wd', s')"
      by (auto simp: ebind_eq_Inr simp del: maybe_spawn_loop.simps)
    from r0 have "row0 = grid wd ! 0" by (auto simp: getitem_Inr norm_index_Inr)
    with l have l': "maybe_spawn_loop 60 wd symbol (int (length (grid wd ! 0)))
        (int (length (grid wd))) (stl s) = Inr (wd', s')" by simp
    have m: "(if symbol = Treasure then msg_new_treasure else msg_new_trap) =
       (if fst (random_unit s) < treasure_threshold then msg_new_treasure else msg_new_trap)"
      by (simp add: symbol_def)
    note fs = maybe_spawn_loop_first_site[OF l', folded picked_def picks_site_def, unfolded m]
    have d: "sdrop n (stl s) = sdrop (Suc n) s" for n by simp
    have n1: "Suc (2 * 60) = (121::nat)" and n2: "Suc (2 * k + 2) = 2 * k + 3" for k :: nat
      by simp_all
    have e1: "sdrop (2 * 60) (stl s) = sdrop 121 s"
      by (simp only: d n1)
    have e2: "sdrop (2 * k + 2) (stl s) = sdrop (2 * k + 3) s" for k
      by (simp only: d n2)
    show "((\<forall>k<60. \<not> picks_site wd (stl s) k) \<longrightarrow> wd' = wd \<and> s' = sdrop 121 s) \<and>
      (\<forall>k<60. picks_site wd (stl s) k \<and> (\<forall>i<k. \<not> picks_site wd (stl s) i) \<longrightarrow>
         (\<exists>g'. grid_set (grid wd) (snd (picked wd (stl s) k)) (fst (picked wd (stl s) k))
                 (if fst (random_unit s) < treasure_threshold then Treasure else Trap) = Inr g' \<and>
            wd' = wd\<lparr>grid := g', message := message wd @
                   (if fst (random_unit s) < treasure_threshold then msg_new_treasure
                    else msg_new_trap)\<rparr>) \<and>
         s' = sdrop (2 * k + 3) s)"
      by (rule fs[unfolded e1 e2 symbol_def])
  qed
  show ?thesis by (intro conjI c1 c2 c3 c4 c5)
qed
lemma hall_picks:
  "picked hall (stl tape_treasure) 0 = (2, 1)" "picked hall (stl tape_trap) 0 = (3, 1)"
  "picks_site hall (stl tape_treasure) 0" "picks_site hall (stl tape_trap) 0"
  by (simp_all add: picks_site_def picked_def pick_def spawn_site_def hall_def wall_row_def
        tape_treasure_def tape_trap_def grid_get_def getitem_def norm_index_def)

lemma cell3_picks: "\<not> picks_site cell3 (stl zeros) k"
proof -
  have "stl zeros = zeros" by (simp add: zeros_def)
  then show ?thesis
    by (simp add: picks_site_def picked_def pick_def spawn_site_def cell3_def zeros_snth)
qed

lemma hall_rect: "rect (grid hall) 6 3"
  by (auto simp: rect_def hall_def wall_row_def nth_Cons' )

lemma tape_drops:
  "sdrop 3 tape_treasure = zeros" "sdrop 3 tape_trap = zeros" "sdrop 121 zeros = zeros"
proof -
  have z: "sdrop n zeros = zeros" for n
    by (induction n) (simp_all add: zeros_def)
  show "sdrop 121 zeros = zeros" by (rule z)
  show "sdrop 3 tape_treasure = zeros" "sdrop 3 tape_trap = zeros"
    by (simp_all add: tape_treasure_def tape_trap_def numeral_3_eq_3)
qed

theorem random_event_spawn_witness:
  "(exit_spawned corridor1 \<and> maybe_spawn corridor1 zeros = Inr (corridor1, zeros)) \<and>
   (\<not> exit_spawned hall \<and> trap_threshold \<le> fst (random_unit tape_quiet) \<and>
    maybe_spawn hall tape_quiet = Inr (hall, stl tape_quiet)) \<and>
   (\<not> exit_spawned hall \<and> fst (random_unit tape_treasure) < treasure_threshold \<and>
    fst (random_unit tape_treasure) < trap_threshold \<and>
    maybe_spawn hall tape_treasure = Inr (hall_treasure, zeros) \<and>
    picks_site hall (stl tape_treasure) 0 \<and> picked hall (stl tape_treasure) 0 = (2, 1) \<and>
    (\<exists>g'. grid_set (grid hall) 1 2 Treasure = Inr g' \<and>
       hall_treasure = hall\<lparr>grid := g', message := message hall @ msg_new_treasure\<rparr>) \<and>
    zeros = sdrop 3 tape_treasure) \<and>
   (\<not> exit_spawned hall \<and> fst (random_unit tape_trap) < trap_threshold \<and>
    \<not> fst (random_unit tape_trap) < treasure_threshold \<and>
    maybe_spawn hall tape_trap = Inr (hall_trap, zeros) \<and>
    picks_site hall (stl tape_trap) 0 \<and> picked hall (stl tape_trap) 0 = (3, 1) \<and>
    (\<exists>g'. grid_set (grid hall) 1 3 Trap = Inr g' \<and>
       hall_trap = hall\<lparr>grid := g', message := message hall @ msg_new_trap\<rparr>) \<and>
    zeros = sdrop 3 tape_trap) \<and>
   (\<not> exit_spawned cell3 \<and> fst (random_unit zeros) < trap_threshold \<and>
    maybe_spawn cell3 zeros = Inr (cell3, zeros) \<and>
    (\<forall>k. \<not> picks_site cell3 (stl zeros) k) \<and> zeros = sdrop 121 zeros) \<and>
   (rect (grid hall) 6 3 \<and> (3::nat) \<le> 6 \<and> (3::nat) \<le> 3 \<and>
    (\<exists>wd1 s1. maybe_spawn hall tape_treasure = Inr (wd1, s1))) \<and>
   (try_move corridor0 1 0 zeros = Inr (corridor1, zeros) \<and>
    destination corridor0 1 0 = Inr (2, 1) \<and> target_cell corridor0 1 0 = Inr Treasure \<and>
    (\<exists>g1 wd2 s2. grid_set (grid corridor0) 1 2 Floor = Inr g1 \<and>
       (if \<not> exit_spawned corridor0 \<and> count_symbol g1 Treasure = 0
        then spawn_exit (interacted corridor0 (2, 1) Treasure zeros g1) zeros = Inr (wd2, s2)
        else wd2 = interacted corridor0 (2, 1) Treasure zeros g1 \<and> s2 = zeros) \<and>
       maybe_spawn wd2 s2 = Inr (corridor1, zeros)))"
proof -
  have e: "exit_spawned corridor1" "\<not> exit_spawned hall" "\<not> exit_spawned cell3"
    by (simp_all add: corridor1_def hall_def cell3_def)
  have q: "trap_threshold \<le> fst (random_unit tape_quiet)"
    "fst (random_unit tape_trap) < trap_threshold"
    "\<not> fst (random_unit tape_trap) < treasure_threshold"
    "fst (random_unit zeros) < trap_threshold"
    "fst (random_unit tape_treasure) < treasure_threshold"
    "fst (random_unit tape_treasure) < trap_threshold"
    unfolding hall_rolls
    by (simp_all add: random_unit_def zeros_def treasure_threshold_def trap_threshold_def)
  have c: "target_cell corridor0 1 0 = Inr Treasure"
    by (simp add: corridor0_def run_defs)
  note t1 = random_event_spawn[where wd = corridor1 and s = zeros]
  note t2 = random_event_spawn[where wd = hall and s = tape_quiet]
  note t3 = random_event_spawn[where wd = hall and s = tape_trap and wd' = hall_trap
      and s' = zeros and W = 6 and H = 3]
  note t4 = random_event_spawn[where wd = cell3 and s = zeros and wd' = cell3 and s' = zeros]
  note t5 = random_event_spawn[where wd = hall and s = tape_treasure and W = 6 and H = 3
      and wd' = hall_treasure and s' = zeros
      and ?wd0.0 = corridor0 and dx = 1 and dy = 0 and ?s0.0 = zeros
      and r = "(corridor1, zeros)" and p = "(2, 1)" and c = Treasure]
  from t1 e(1) have 1: "maybe_spawn corridor1 zeros = Inr (corridor1, zeros)" by blast
  from t2 e(2) q(1) have 2: "maybe_spawn hall tape_quiet = Inr (hall, stl tape_quiet)" by blast
  from t3 e(2) q(2) hall_runs(2) have "\<forall>k<60. picks_site hall (stl tape_trap) k \<and>
      (\<forall>i<k. \<not> picks_site hall (stl tape_trap) i) \<longrightarrow>
         (\<exists>g'. grid_set (grid hall) (snd (picked hall (stl tape_trap) k))
                 (fst (picked hall (stl tape_trap) k))
                 (if fst (random_unit tape_trap) < treasure_threshold then Treasure else Trap)
                 = Inr g' \<and>
            hall_trap = hall\<lparr>grid := g', message := message hall @
                   (if fst (random_unit tape_trap) < treasure_threshold then msg_new_treasure
                    else msg_new_trap)\<rparr>) \<and>
         zeros = sdrop (2 * k + 3) tape_trap"
    by blast
  from this[rule_format, of 0] hall_picks(2,4) q(3)
  have 3: "(\<exists>g'. grid_set (grid hall) 1 3 Trap = Inr g' \<and>
       hall_trap = hall\<lparr>grid := g', message := message hall @ msg_new_trap\<rparr>) \<and>
    zeros = sdrop 3 tape_trap"
    by simp
  from t5 e(2) q(6) hall_runs(1) have "\<forall>k<60. picks_site hall (stl tape_treasure) k \<and>
      (\<forall>i<k. \<not> picks_site hall (stl tape_treasure) i) \<longrightarrow>
         (\<exists>g'. grid_set (grid hall) (snd (picked hall (stl tape_treasure) k))
                 (fst (picked hall (stl tape_treasure) k))
                 (if fst (random_unit tape_treasure) < treasure_threshold then Treasure
                  else Trap) = Inr g' \<and>
            hall_treasure = hall\<lparr>grid := g', message := message hall @
                   (if fst (random_unit tape_treasure) < treasure_threshold
                    then msg_new_treasure else msg_new_trap)\<rparr>) \<and>
         zeros = sdrop (2 * k + 3) tape_treasure"
    by blast
  from this[rule_format, of 0] hall_picks(1,3) q(5)
  have 7: "(\<exists>g'. grid_set (grid hall) 1 2 Treasure = Inr g' \<and>
       hall_treasure = hall\<lparr>grid := g', message := message hall @ msg_new_treasure\<rparr>) \<and>
    zeros = sdrop 3 tape_treasure"
    by simp
  from t4 e(3) q(4) cell3_quiet cell3_picks have 4: "zeros = sdrop 121 zeros" by blast
  from t5 hall_rect have 5: "\<exists>wd1 s1. maybe_spawn hall tape_treasure = Inr (wd1, s1)" by simp
  have "try_move corridor0 1 0 zeros = Inr (corridor1, zeros) \<and>
      destination corridor0 1 0 = Inr (2, 1) \<and> target_cell corridor0 1 0 = Inr Treasure \<and>
      Treasure \<noteq> Wall \<and> Treasure \<noteq> Exit"
    using corridor_step01 corridor_destinations(1) c by simp
  from t5[THEN conjunct2, THEN conjunct2, THEN conjunct2, THEN conjunct2, THEN mp, OF this]
  have 6: "\<exists>g1 wd2 s2. grid_set (grid corridor0) 1 2 Floor = Inr g1 \<and>
       (if \<not> exit_spawned corridor0 \<and> count_symbol g1 Treasure = 0
        then spawn_exit (interacted corridor0 (2, 1) Treasure zeros g1) zeros = Inr (wd2, s2)
        else wd2 = interacted corridor0 (2, 1) Treasure zeros g1 \<and> s2 = zeros) \<and>
       maybe_spawn wd2 s2 = Inr (corridor1, zeros)"
    by (simp only: fst_conv snd_conv cell.distinct if_False)
  from 1 2 3 4 5 6 7 e q c hall_runs(1,2) hall_picks cell3_quiet cell3_picks hall_rect
    corridor_step01 corridor_destinations(1)
  show ?thesis by simp
qed

section \<open>Commands\<close>

lemma str_strip_Nil: "str_strip [] = []"
  by (simp add: str_strip_def)

lemma parse_command_eq: "parse_command u line = take 1 (str_lower u (str_strip line))"
  by (simp add: parse_command_def str_strip_Nil str_lower_def)

lemma dropWhile_snoc_stop: "\<not> P y \<Longrightarrow> \<exists>zs. dropWhile P (xs @ [y]) = zs @ [y]"
  by (induction xs) auto

lemma str_strip_first:
  assumes "str_strip line = c # rest"
  shows "\<not> isspace c"
proof (cases "dropWhile isspace line")
  case Nil
  with assms show ?thesis by (simp add: str_strip_def)
next
  case (Cons y ys)
  then have y: "\<not> isspace y" using hd_dropWhile[of isspace line] by simp
  from dropWhile_snoc_stop[where P = isspace and y = y and xs = "rev ys"] y obtain zs where
    "dropWhile isspace (rev ys @ [y]) = zs @ [y]" by blast
  with assms Cons have "c = y" by (simp add: str_strip_def)
  with y show ?thesis by simp
qed

lemma str_strip_keeps_first:
  assumes "\<not> isspace c"
  shows "\<exists>rest. str_strip (c # others) = c # rest"
proof -
  from dropWhile_snoc_stop[where P = isspace and y = c and xs = "rev others"] assms
  obtain zs where "dropWhile isspace (rev others @ [c]) = zs @ [c]" by blast
  with assms show ?thesis by (simp add: str_strip_def)
qed

lemma str_strip_single: "\<not> isspace c \<Longrightarrow> str_strip [c] = [c]"
  by (simp add: str_strip_def)

lemma take_lower_first:
  "take 1 (str_lower u (c # rest)) =
     [if c = 0x3A3 then 0x3C3
      else if c < 0x80 then (if 0x41 \<le> c \<and> c \<le> 0x5A then c + 0x20 else c)
      else fst (lower_full u c)]"
  by (simp add: str_lower_def lower_ucs4_def to_lower_full_def final_sigma_def)

lemma literals:
  "of_char ` set ''xX'' = {0x78, 0x58 :: nat}" "of_char ` set ''rR'' = {0x72, 0x52 :: nat}"
  "of_char ` set ''hH'' = {0x68, 0x48 :: nat}"
  "of_char ` set ''zZwW'' = {0x7A, 0x5A, 0x77, 0x57 :: nat}"
  "of_char ` set ''sS'' = {0x73, 0x53 :: nat}"
  "of_char ` set ''qQaA'' = {0x71, 0x51, 0x61, 0x41 :: nat}"
  "of_char ` set ''dD'' = {0x64, 0x44 :: nat}"
  by simp_all

lemma commands:
  "ustr ''x'' = [0x78]" "ustr ''h'' = [0x68]" "ustr ''r'' = [0x72]"
  "moves = [([0x7A], (0, -1)), ([0x77], (0, -1)), ([0x73], (0, 1)),
            ([0x71], (-1, 0)), ([0x61], (-1, 0)), ([0x64], (1, 0))]"
  by (simp_all add: ustr_def moves_def)

text \<open>
  Claim C10. The command of an input line is the first code point of the line after
  stripping the surrounding white space and lowering the case, and it is empty when
  nothing is left (in particular for the empty line). A line that starts with a code
  point other than white space keeps it as the first of the stripped line. When the
  stripped line starts with the code point \<open>c\<close>, the command is the first code point
  of the lowercase mapping of \<open>c\<close> (the rest of the line has no part in it), it is the
  command of the line made of \<open>c\<close> alone, and the pass of the loop does with the line
  what it does with that one-character line, in every state of the world. In particular: with \<open>x\<close> or \<open>X\<close>
  first the loop returns, and with \<open>r\<close> or \<open>R\<close> first it goes on with the world that
  \<open>build_world\<close> returns (or raises what \<open>build_world\<close> raises), whatever the state;
  on a world in play, \<open>h\<close> sets the help text as the message and the keys \<open>z\<close>,
  \<open>w\<close>, \<open>s\<close>, \<open>q\<close>, \<open>a\<close>, \<open>d\<close>, in either case, run \<open>try_move\<close> with
  their displacement.
\<close>

theorem first_character_command:
  "parse_command u [] = [] \<and>
   parse_command u line = take 1 (str_lower u (str_strip line)) \<and>
   (str_strip line = [] \<longrightarrow> parse_command u line = []) \<and>
   (\<not> isspace c \<longrightarrow> (\<exists>rest. str_strip (c # others) = c # rest)) \<and>
   (str_strip line = c # rest \<longrightarrow>
      parse_command u line =
        [if c = 0x3A3 then 0x3C3
         else if c < 0x80 then (if 0x41 \<le> c \<and> c \<le> 0x5A then c + 0x20 else c)
         else fst (lower_full u c)] \<and>
      parse_command u line = parse_command u [c] \<and>
      game_step u width height wd line s = game_step u width height wd [c] s \<and>
      (c \<in> of_char ` set ''xX'' \<longrightarrow> game_step u width height wd line s = Inr Return) \<and>
      (c \<in> of_char ` set ''rR'' \<longrightarrow>
         game_step u width height wd line s =
           (case build_world width height s of
              Inl e \<Rightarrow> Inl e | Inr (wd', s') \<Rightarrow> Inr (Continue wd' s'))) \<and>
      (\<not> won wd \<and> 0 < hp wd \<longrightarrow>
         (c \<in> of_char ` set ''hH'' \<longrightarrow>
            game_step u width height wd line s = Inr (Continue (wd\<lparr>message := help_text\<rparr>) s)) \<and>
         (c \<in> of_char ` set ''zZwW'' \<longrightarrow>
            game_step u width height wd line s =
              (case try_move wd 0 (- 1) s of
                 Inl e \<Rightarrow> Inl e | Inr (wd', s') \<Rightarrow> Inr (Continue wd' s'))) \<and>
         (c \<in> of_char ` set ''sS'' \<longrightarrow>
            game_step u width height wd line s =
              (case try_move wd 0 1 s of
                 Inl e \<Rightarrow> Inl e | Inr (wd', s') \<Rightarrow> Inr (Continue wd' s'))) \<and>
         (c \<in> of_char ` set ''qQaA'' \<longrightarrow>
            game_step u width height wd line s =
              (case try_move wd (- 1) 0 s of
                 Inl e \<Rightarrow> Inl e | Inr (wd', s') \<Rightarrow> Inr (Continue wd' s'))) \<and>
         (c \<in> of_char ` set ''dD'' \<longrightarrow>
            game_step u width height wd line s =
              (case try_move wd 1 0 s of
                 Inl e \<Rightarrow> Inl e | Inr (wd', s') \<Rightarrow> Inr (Continue wd' s')))))"
proof -
  have c1: "parse_command u [] = []" by (simp add: parse_command_def)
  have c2: "parse_command u line = take 1 (str_lower u (str_strip line))"
    by (rule parse_command_eq)
  have c3: "str_strip line = [] \<longrightarrow> parse_command u line = []"
    by (simp add: parse_command_eq str_lower_def)
  have c0: "\<not> isspace c \<longrightarrow> (\<exists>rest. str_strip (c # others) = c # rest)"
    using str_strip_keeps_first by blast
  have c4: "str_strip line = c # rest \<longrightarrow>
      parse_command u line =
        [if c = 0x3A3 then 0x3C3
         else if c < 0x80 then (if 0x41 \<le> c \<and> c \<le> 0x5A then c + 0x20 else c)
         else fst (lower_full u c)] \<and>
      parse_command u line = parse_command u [c] \<and>
      game_step u width height wd line s = game_step u width height wd [c] s \<and>
      (c \<in> of_char ` set ''xX'' \<longrightarrow> game_step u width height wd line s = Inr Return) \<and>
      (c \<in> of_char ` set ''rR'' \<longrightarrow>
         game_step u width height wd line s =
           (case build_world width height s of
              Inl e \<Rightarrow> Inl e | Inr (wd', s') \<Rightarrow> Inr (Continue wd' s'))) \<and>
      (\<not> won wd \<and> 0 < hp wd \<longrightarrow>
         (c \<in> of_char ` set ''hH'' \<longrightarrow>
            game_step u width height wd line s = Inr (Continue (wd\<lparr>message := help_text\<rparr>) s)) \<and>
         (c \<in> of_char ` set ''zZwW'' \<longrightarrow>
            game_step u width height wd line s =
              (case try_move wd 0 (- 1) s of
                 Inl e \<Rightarrow> Inl e | Inr (wd', s') \<Rightarrow> Inr (Continue wd' s'))) \<and>
         (c \<in> of_char ` set ''sS'' \<longrightarrow>
            game_step u width height wd line s =
              (case try_move wd 0 1 s of
                 Inl e \<Rightarrow> Inl e | Inr (wd', s') \<Rightarrow> Inr (Continue wd' s'))) \<and>
         (c \<in> of_char ` set ''qQaA'' \<longrightarrow>
            game_step u width height wd line s =
              (case try_move wd (- 1) 0 s of
                 Inl e \<Rightarrow> Inl e | Inr (wd', s') \<Rightarrow> Inr (Continue wd' s'))) \<and>
         (c \<in> of_char ` set ''dD'' \<longrightarrow>
            game_step u width height wd line s =
              (case try_move wd 1 0 s of
                 Inl e \<Rightarrow> Inl e | Inr (wd', s') \<Rightarrow> Inr (Continue wd' s'))))"
  proof
    assume st: "str_strip line = c # rest"
    have p: "parse_command u line =
        [if c = 0x3A3 then 0x3C3
         else if c < 0x80 then (if 0x41 \<le> c \<and> c \<le> 0x5A then c + 0x20 else c)
         else fst (lower_full u c)]"
      unfolding parse_command_eq st by (rule take_lower_first)
    have "parse_command u [c] = take 1 (str_lower u [c])"
      unfolding parse_command_eq str_strip_single[OF str_strip_first[OF st]] ..
    also have "\<dots> = parse_command u line"
      unfolding p by (rule take_lower_first)
    finally have q: "parse_command u line = parse_command u [c]" by simp
    have g: "game_step u width height wd line s = game_step u width height wd [c] s"
      unfolding game_step_def q ..
    have x: "c \<in> of_char ` set ''xX'' \<longrightarrow> game_step u width height wd line s = Inr Return"
      unfolding literals by (auto simp: game_step_def p commands)
    have r: "c \<in> of_char ` set ''rR'' \<longrightarrow>
         game_step u width height wd line s =
           (case build_world width height s of
              Inl e \<Rightarrow> Inl e | Inr (wd', s') \<Rightarrow> Inr (Continue wd' s'))"
      unfolding literals by (auto simp: game_step_def p commands ebind_def)
    have a: "\<not> won wd \<and> 0 < hp wd \<longrightarrow>
         (c \<in> of_char ` set ''hH'' \<longrightarrow>
            game_step u width height wd line s = Inr (Continue (wd\<lparr>message := help_text\<rparr>) s)) \<and>
         (c \<in> of_char ` set ''zZwW'' \<longrightarrow>
            game_step u width height wd line s =
              (case try_move wd 0 (- 1) s of
                 Inl e \<Rightarrow> Inl e | Inr (wd', s') \<Rightarrow> Inr (Continue wd' s'))) \<and>
         (c \<in> of_char ` set ''sS'' \<longrightarrow>
            game_step u width height wd line s =
              (case try_move wd 0 1 s of
                 Inl e \<Rightarrow> Inl e | Inr (wd', s') \<Rightarrow> Inr (Continue wd' s'))) \<and>
         (c \<in> of_char ` set ''qQaA'' \<longrightarrow>
            game_step u width height wd line s =
              (case try_move wd (- 1) 0 s of
                 Inl e \<Rightarrow> Inl e | Inr (wd', s') \<Rightarrow> Inr (Continue wd' s'))) \<and>
         (c \<in> of_char ` set ''dD'' \<longrightarrow>
            game_step u width height wd line s =
              (case try_move wd 1 0 s of
                 Inl e \<Rightarrow> Inl e | Inr (wd', s') \<Rightarrow> Inr (Continue wd' s')))"
    proof
      assume "\<not> won wd \<and> 0 < hp wd"
      then have n: "\<not> won wd" "\<not> hp wd \<le> 0" by simp_all
      have h: "c \<in> of_char ` set ''hH'' \<longrightarrow>
            game_step u width height wd line s = Inr (Continue (wd\<lparr>message := help_text\<rparr>) s)"
        unfolding literals by (auto simp: game_step_def p commands n)
      have z: "c \<in> of_char ` set ''zZwW'' \<longrightarrow>
            game_step u width height wd line s =
              (case try_move wd 0 (- 1) s of
                 Inl e \<Rightarrow> Inl e | Inr (wd', s') \<Rightarrow> Inr (Continue wd' s'))"
        unfolding literals by (auto simp: game_step_def p commands n ebind_def)
      have s: "c \<in> of_char ` set ''sS'' \<longrightarrow>
            game_step u width height wd line s =
              (case try_move wd 0 1 s of
                 Inl e \<Rightarrow> Inl e | Inr (wd', s') \<Rightarrow> Inr (Continue wd' s'))"
        unfolding literals by (auto simp: game_step_def p commands n ebind_def)
      have q: "c \<in> of_char ` set ''qQaA'' \<longrightarrow>
            game_step u width height wd line s =
              (case try_move wd (- 1) 0 s of
                 Inl e \<Rightarrow> Inl e | Inr (wd', s') \<Rightarrow> Inr (Continue wd' s'))"
        unfolding literals by (auto simp: game_step_def p commands n ebind_def)
      have d: "c \<in> of_char ` set ''dD'' \<longrightarrow>
            game_step u width height wd line s =
              (case try_move wd 1 0 s of
                 Inl e \<Rightarrow> Inl e | Inr (wd', s') \<Rightarrow> Inr (Continue wd' s'))"
        unfolding literals by (auto simp: game_step_def p commands n ebind_def)
      show "(c \<in> of_char ` set ''hH'' \<longrightarrow>
            game_step u width height wd line s = Inr (Continue (wd\<lparr>message := help_text\<rparr>) s)) \<and>
         (c \<in> of_char ` set ''zZwW'' \<longrightarrow>
            game_step u width height wd line s =
              (case try_move wd 0 (- 1) s of
                 Inl e \<Rightarrow> Inl e | Inr (wd', s') \<Rightarrow> Inr (Continue wd' s'))) \<and>
         (c \<in> of_char ` set ''sS'' \<longrightarrow>
            game_step u width height wd line s =
              (case try_move wd 0 1 s of
                 Inl e \<Rightarrow> Inl e | Inr (wd', s') \<Rightarrow> Inr (Continue wd' s'))) \<and>
         (c \<in> of_char ` set ''qQaA'' \<longrightarrow>
            game_step u width height wd line s =
              (case try_move wd (- 1) 0 s of
                 Inl e \<Rightarrow> Inl e | Inr (wd', s') \<Rightarrow> Inr (Continue wd' s'))) \<and>
         (c \<in> of_char ` set ''dD'' \<longrightarrow>
            game_step u width height wd line s =
              (case try_move wd 1 0 s of
                 Inl e \<Rightarrow> Inl e | Inr (wd', s') \<Rightarrow> Inr (Continue wd' s')))"
        by (intro conjI h z s q d)
    qed
    show "parse_command u line =
        [if c = 0x3A3 then 0x3C3
         else if c < 0x80 then (if 0x41 \<le> c \<and> c \<le> 0x5A then c + 0x20 else c)
         else fst (lower_full u c)] \<and>
      parse_command u line = parse_command u [c] \<and>
      game_step u width height wd line s = game_step u width height wd [c] s \<and>
      (c \<in> of_char ` set ''xX'' \<longrightarrow> game_step u width height wd line s = Inr Return) \<and>
      (c \<in> of_char ` set ''rR'' \<longrightarrow>
         game_step u width height wd line s =
           (case build_world width height s of
              Inl e \<Rightarrow> Inl e | Inr (wd', s') \<Rightarrow> Inr (Continue wd' s'))) \<and>
      (\<not> won wd \<and> 0 < hp wd \<longrightarrow>
         (c \<in> of_char ` set ''hH'' \<longrightarrow>
            game_step u width height wd line s = Inr (Continue (wd\<lparr>message := help_text\<rparr>) s)) \<and>
         (c \<in> of_char ` set ''zZwW'' \<longrightarrow>
            game_step u width height wd line s =
              (case try_move wd 0 (- 1) s of
                 Inl e \<Rightarrow> Inl e | Inr (wd', s') \<Rightarrow> Inr (Continue wd' s'))) \<and>
         (c \<in> of_char ` set ''sS'' \<longrightarrow>
            game_step u width height wd line s =
              (case try_move wd 0 1 s of
                 Inl e \<Rightarrow> Inl e | Inr (wd', s') \<Rightarrow> Inr (Continue wd' s'))) \<and>
         (c \<in> of_char ` set ''qQaA'' \<longrightarrow>
            game_step u width height wd line s =
              (case try_move wd (- 1) 0 s of
                 Inl e \<Rightarrow> Inl e | Inr (wd', s') \<Rightarrow> Inr (Continue wd' s'))) \<and>
         (c \<in> of_char ` set ''dD'' \<longrightarrow>
            game_step u width height wd line s =
              (case try_move wd 1 0 s of
                 Inl e \<Rightarrow> Inl e | Inr (wd', s') \<Rightarrow> Inr (Continue wd' s'))))"
      by (intro conjI p q g x r a)
  qed
  show ?thesis by (intro conjI c1 c2 c3 c0 c4)
qed

theorem first_character_command_witness:
  "(str_strip [0x3000, 0x2003] = [] \<and> parse_command excerpt [0x3000, 0x2003] = []) \<and>
   (str_strip [0x2003, 0x58, 0x130] = [0x58, 0x130] \<and> 0x58 \<in> of_char ` set ''xX'' \<and>
    game_step excerpt 5 3 corridor0 [0x2003, 0x58, 0x130] zeros = Inr Return) \<and>
   (str_strip (ustr ''Restart '') = 0x52 # ustr ''estart'' \<and> 0x52 \<in> of_char ` set ''rR'' \<and>
    build_world 5 3 zeros = Inr (room5, zeros) \<and>
    game_step excerpt 5 3 corridor_won (ustr ''Restart '') zeros = Inr (Continue room5 zeros)) \<and>
   (\<not> won room5 \<and> 0 < hp room5 \<and>
    str_strip (ustr ''help'') = 0x68 # ustr ''elp'' \<and> 0x68 \<in> of_char ` set ''hH'' \<and>
    game_step excerpt 5 3 room5 (ustr ''help'') zeros =
      Inr (Continue (room5\<lparr>message := help_text\<rparr>) zeros)) \<and>
   (str_strip (ustr ''Zoom'') = 0x5A # ustr ''oom'' \<and> 0x5A \<in> of_char ` set ''zZwW'' \<and>
    try_move room5 0 (- 1) zeros = Inr (room5\<lparr>message := msg_wall\<rparr>, zeros) \<and>
    game_step excerpt 5 3 room5 (ustr ''Zoom'') zeros =
      Inr (Continue (room5\<lparr>message := msg_wall\<rparr>) zeros)) \<and>
   (str_strip (ustr ''south'') = 0x73 # ustr ''outh'' \<and> 0x73 \<in> of_char ` set ''sS'' \<and>
    try_move room5 0 1 zeros = Inr (room5\<lparr>message := msg_wall\<rparr>, zeros) \<and>
    game_step excerpt 5 3 room5 (ustr ''south'') zeros =
      Inr (Continue (room5\<lparr>message := msg_wall\<rparr>) zeros)) \<and>
   (\<not> won corridor1 \<and> 0 < hp corridor1 \<and>
    str_strip (ustr ''quit'') = 0x71 # ustr ''uit'' \<and> 0x71 \<in> of_char ` set ''qQaA'' \<and>
    try_move corridor1 (- 1) 0 zeros = Inr (corridor_won, zeros) \<and>
    game_step excerpt 5 3 corridor1 (ustr ''quit'') zeros = Inr (Continue corridor_won zeros)) \<and>
   (str_strip (ustr ''Dx'') = 0x44 # ustr ''x'' \<and> 0x44 \<in> of_char ` set ''dD'' \<and>
    try_move room5 1 0 zeros = Inr (room5_exit, zeros) \<and>
    game_step excerpt 5 3 room5 (ustr ''Dx'') zeros = Inr (Continue room5_exit zeros)) \<and>
   (\<not> isspace 0x78 \<and> (\<exists>rest. str_strip (0x78 # ustr ''yz '') = 0x78 # rest)) \<and>
   (str_strip [0x130, 0x78] = [0x130, 0x78] \<and> parse_command excerpt [0x130, 0x78] = [0x69] \<and>
    game_step excerpt 5 3 room5 [0x130, 0x78] zeros = game_step excerpt 5 3 room5 [0x130] zeros)"
proof -
  have st: "str_strip [0x3000, 0x2003] = []" "str_strip [0x2003, 0x58, 0x130] = [0x58, 0x130]"
    "str_strip (ustr ''Restart '') = 0x52 # ustr ''estart''"
    "str_strip (ustr ''help'') = 0x68 # ustr ''elp''"
    "str_strip (ustr ''Zoom'') = 0x5A # ustr ''oom''"
    "str_strip (ustr ''south'') = 0x73 # ustr ''outh''"
    "str_strip (ustr ''quit'') = 0x71 # ustr ''uit''"
    "str_strip (ustr ''Dx'') = 0x44 # ustr ''x''"
    "str_strip [0x130, 0x78] = [0x130, 0x78]"
    by (simp_all add: str_strip_def isspace_def ustr_def)
  have m: "0x58 \<in> of_char ` set ''xX''" "0x52 \<in> of_char ` set ''rR''"
    "0x68 \<in> of_char ` set ''hH''" "0x5A \<in> of_char ` set ''zZwW''"
    "0x73 \<in> of_char ` set ''sS''" "0x71 \<in> of_char ` set ''qQaA''"
    "0x44 \<in> of_char ` set ''dD''"
    unfolding literals by simp_all
  have a: "\<not> won room5 \<and> 0 < hp room5" "\<not> won corridor1 \<and> 0 < hp corridor1"
    by (simp_all add: room5_def corridor1_def)
  have t: "try_move room5 0 (- 1) zeros = Inr (room5\<lparr>message := msg_wall\<rparr>, zeros)"
    "try_move room5 0 1 zeros = Inr (room5\<lparr>message := msg_wall\<rparr>, zeros)"
    "try_move corridor1 (- 1) 0 zeros = Inr (corridor_won, zeros)"
    by (simp_all add: room5_def corridor1_def corridor_won_def run_defs)
  have l: "fst (lower_full excerpt 0x130) = 0x69" by (simp add: excerpt_def)
  note n = conjunct2[THEN conjunct2, THEN conjunct2, THEN conjunct2, THEN mp]
  from first_character_command[where u = excerpt and line = "[0x3000, 0x2003]"] st(1)
  have 1: "parse_command excerpt [0x3000, 0x2003] = []" by blast
  from first_character_command[where u = excerpt and line = "[0x2003, 0x58, 0x130]"
      and c = "0x58" and rest = "[0x130]" and width = 5 and height = 3 and wd = corridor0
      and s = zeros, THEN n, OF st(2)] m(1)
  have 2: "game_step excerpt 5 3 corridor0 [0x2003, 0x58, 0x130] zeros = Inr Return" by blast
  from first_character_command[where u = excerpt and line = "ustr ''Restart ''"
      and c = "0x52" and rest = "ustr ''estart''" and width = 5 and height = 3
      and wd = corridor_won and s = zeros, THEN n, OF st(3)] m(2)
  have "game_step excerpt 5 3 corridor_won (ustr ''Restart '') zeros =
      (case build_world 5 3 zeros of
         Inl e \<Rightarrow> Inl e | Inr (wd', s') \<Rightarrow> Inr (Continue wd' s'))" by blast
  then have 3: "game_step excerpt 5 3 corridor_won (ustr ''Restart '') zeros =
      Inr (Continue room5 zeros)" by (simp add: build_room5)
  from first_character_command[where u = excerpt and line = "ustr ''help''"
      and c = "0x68" and rest = "ustr ''elp''" and width = 5 and height = 3
      and wd = room5 and s = zeros, THEN n, OF st(4)] m(3) a(1)
  have 4: "game_step excerpt 5 3 room5 (ustr ''help'') zeros =
      Inr (Continue (room5\<lparr>message := help_text\<rparr>) zeros)" by blast
  from first_character_command[where u = excerpt and line = "ustr ''Zoom''"
      and c = "0x5A" and rest = "ustr ''oom''" and width = 5 and height = 3
      and wd = room5 and s = zeros, THEN n, OF st(5)] m(4) a(1)
  have "game_step excerpt 5 3 room5 (ustr ''Zoom'') zeros =
      (case try_move room5 0 (- 1) zeros of
         Inl e \<Rightarrow> Inl e | Inr (wd', s') \<Rightarrow> Inr (Continue wd' s'))" by blast
  then have 5: "game_step excerpt 5 3 room5 (ustr ''Zoom'') zeros =
      Inr (Continue (room5\<lparr>message := msg_wall\<rparr>) zeros)" by (simp add: t(1))
  from first_character_command[where u = excerpt and line = "ustr ''south''"
      and c = "0x73" and rest = "ustr ''outh''" and width = 5 and height = 3
      and wd = room5 and s = zeros, THEN n, OF st(6)] m(5) a(1)
  have "game_step excerpt 5 3 room5 (ustr ''south'') zeros =
      (case try_move room5 0 1 zeros of
         Inl e \<Rightarrow> Inl e | Inr (wd', s') \<Rightarrow> Inr (Continue wd' s'))" by blast
  then have 6: "game_step excerpt 5 3 room5 (ustr ''south'') zeros =
      Inr (Continue (room5\<lparr>message := msg_wall\<rparr>) zeros)" by (simp add: t(2))
  from first_character_command[where u = excerpt and line = "ustr ''quit''"
      and c = "0x71" and rest = "ustr ''uit''" and width = 5 and height = 3
      and wd = corridor1 and s = zeros, THEN n, OF st(7)] m(6) a(2)
  have "game_step excerpt 5 3 corridor1 (ustr ''quit'') zeros =
      (case try_move corridor1 (- 1) 0 zeros of
         Inl e \<Rightarrow> Inl e | Inr (wd', s') \<Rightarrow> Inr (Continue wd' s'))" by blast
  then have 7: "game_step excerpt 5 3 corridor1 (ustr ''quit'') zeros =
      Inr (Continue corridor_won zeros)" by (simp add: t(3))
  from first_character_command[where u = excerpt and line = "ustr ''Dx''"
      and c = "0x44" and rest = "ustr ''x''" and width = 5 and height = 3
      and wd = room5 and s = zeros, THEN n, OF st(8)] m(7) a(1)
  have "game_step excerpt 5 3 room5 (ustr ''Dx'') zeros =
      (case try_move room5 1 0 zeros of
         Inl e \<Rightarrow> Inl e | Inr (wd', s') \<Rightarrow> Inr (Continue wd' s'))" by blast
  then have 8: "game_step excerpt 5 3 room5 (ustr ''Dx'') zeros =
      Inr (Continue room5_exit zeros)" by (simp add: room5_step)
  note i = first_character_command[where u = excerpt and line = "[0x130, 0x78]"
      and c = "0x130" and rest = "[0x78]" and width = 5 and height = 3
      and wd = room5 and s = zeros, THEN n, OF st(9)]
  from i[THEN conjunct1] l have 9: "parse_command excerpt [0x130, 0x78] = [0x69]" by simp
  from i have 10: "game_step excerpt 5 3 room5 [0x130, 0x78] zeros =
      game_step excerpt 5 3 room5 [0x130] zeros" by blast
  have w: "\<not> isspace 0x78" by (simp add: isspace_def)
  from first_character_command[where c = "0x78" and others = "ustr ''yz ''"] w
  have 11: "\<exists>rest. str_strip (0x78 # ustr ''yz '') = 0x78 # rest" by blast
  show ?thesis
    by (intro conjI st m a[THEN conjunct1] a[THEN conjunct2] t build_room5 room5_step w
          1 2 3 4 5 6 7 8 9 10 11)
qed

end
